theory Spec2Isabelle
  imports Complex_Main
begin

section \<open>JavaScript values\<close>

text \<open>
  The values that reach \<^verbatim>\<open>html5/default/app/ctrl.js\<close> and \<^verbatim>\<open>html5/runtime/index.js\<close>.
  A number is a double: finite values are kept as rationals, the three non-finite values
  are constructors of their own. A regular expression carries its source and its flags, a
  date its time value in milliseconds since the epoch (\<open>None\<close> for an invalid date), a
  document element (an instance of \<^verbatim>\<open>renderer.Element\<close>) its \<^verbatim>\<open>ref\<close>, a function its
  identity. \<open>JError p v\<close> is the value of \<^verbatim>\<open>new Error(`p "${v}"`)\<close>. \<open>JOther tag n\<close> is a
  value of any other built-in class, \<open>tag\<close> being its class name in lower case
  (\<^verbatim>\<open>symbol\<close>, \<^verbatim>\<open>map\<close>, ...).
\<close>

datatype jsnum = Finite rat | NaN | PosInfinity | NegInfinity

datatype jsval =
    JUndefined
  | JNull
  | JBoolean bool
  | JNumber jsnum
  | JString string
  | JRegExp string string
  | JDate "int option"
  | JArray "jsval list"
  | JObject "(string \<times> jsval) list"
  | JElement string
  | JFunction nat
  | JError string jsval
  | JOther string nat

datatype exn = TypeError | RangeError | SyntaxError | Raised jsval

text \<open>
  Modelled from the spec: \<^verbatim>\<open>typof\<close> of \<^verbatim>\<open>../util\<close> is imported by \<^verbatim>\<open>ctrl.js\<close> and is
  not among the sources. The spec's table for \<^verbatim>\<open>normalize\<close> names the classes it
  distinguishes; the strings \<^verbatim>\<open>normalize\<close> switches on are the constructors of \<open>ty\<close>,
  \<open>TOther\<close> standing for every string that is none of the ten named ones.
\<close>

datatype ty =
    TUndefined | TNull | TRegexp | TDate | TNumber | TString | TBoolean
  | TArray | TObject | TFunction | TOther string

fun typof :: "jsval \<Rightarrow> ty" where
  "typof JUndefined = TUndefined"
| "typof JNull = TNull"
| "typof (JBoolean b) = TBoolean"
| "typof (JNumber n) = TNumber"
| "typof (JString s) = TString"
| "typof (JRegExp src fl) = TRegexp"
| "typof (JDate t) = TDate"
| "typof (JArray vs) = TArray"
| "typof (JObject kvs) = TObject"
| "typof (JElement r) = TObject"
| "typof (JFunction f) = TFunction"
| "typof (JError p v) = TOther ''error''"
| "typof (JOther tag n) = TOther tag"

text \<open>\<^verbatim>\<open>if (v)\<close>: the truthiness of a value.\<close>

fun truthy :: "jsval \<Rightarrow> bool" where
  "truthy JUndefined = False"
| "truthy JNull = False"
| "truthy (JBoolean b) = b"
| "truthy (JNumber n) = (n \<noteq> NaN \<and> n \<noteq> Finite 0)"
| "truthy (JString s) = (s \<noteq> [])"
| "truthy v = True"

text \<open>\<^verbatim>\<open>v instanceof renderer.Element\<close> and \<^verbatim>\<open>typeof v === 'function'\<close>.\<close>

fun instanceof_Element :: "jsval \<Rightarrow> bool" where
  "instanceof_Element (JElement r) = True"
| "instanceof_Element v = False"

fun is_function :: "jsval \<Rightarrow> bool" where
  "is_function (JFunction f) = True"
| "is_function v = False"

section \<open>Built-in conversions used by \<^verbatim>\<open>normalize\<close>\<close>

text \<open>The decimal form of a non-negative integer, as \<^verbatim>\<open>Number.prototype.toString\<close> gives it.\<close>

definition digit :: "nat \<Rightarrow> char" where
  "digit d = ''0123456789'' ! d"

fun dec :: "nat \<Rightarrow> string" where
  "dec n = (if n < 10 then [digit n] else dec (n div 10) @ [digit (n mod 10)])"

declare dec.simps [simp del]

text \<open>\<open>pad w n\<close>: the decimal form of \<open>n\<close>, zero-filled on the left to width \<open>w\<close>.\<close>

definition pad :: "nat \<Rightarrow> nat \<Rightarrow> string" where
  "pad w n = replicate (w - length (dec n)) (CHR ''0'') @ dec n"

text \<open>
  \<^verbatim>\<open>Date.prototype.toISOString\<close>: the civil date of a day number (days since
  1970-01-01, proleptic Gregorian calendar) from its place \<open>doe\<close> in a 400-year era that
  starts on a 1st of March, and the time of day. The time value of a valid date is an
  integer of at most \<open>8.64 * 10^15\<close> in magnitude; an invalid date makes the method
  throw a \<^verbatim>\<open>RangeError\<close>.
\<close>

definition yoe_of :: "int \<Rightarrow> int" where
  "yoe_of doe = (doe - doe div 1460 + doe div 36524 - doe div 146096) div 365"

definition doy_of :: "int \<Rightarrow> int" where
  "doy_of doe = doe - (365 * yoe_of doe + yoe_of doe div 4 - yoe_of doe div 100)"

definition mp_of :: "int \<Rightarrow> int" where
  "mp_of doy = (5 * doy + 2) div 153"

definition day_of :: "int \<Rightarrow> int" where
  "day_of doy = doy - (153 * mp_of doy + 2) div 5 + 1"

definition month_of :: "int \<Rightarrow> int" where
  "month_of doy = (if mp_of doy < 10 then mp_of doy + 3 else mp_of doy - 9)"

definition year_of :: "int \<Rightarrow> int \<Rightarrow> int" where
  "year_of era doe =
     yoe_of doe + era * 400 + (if month_of (doy_of doe) \<le> 2 then 1 else 0)"

definition civil :: "int \<Rightarrow> int \<times> nat \<times> nat" where
  "civil days =
     (year_of ((days + 719468) div 146097) ((days + 719468) mod 146097),
      nat (month_of (doy_of ((days + 719468) mod 146097))),
      nat (day_of (doy_of ((days + 719468) mod 146097))))"

definition iso_year :: "int \<Rightarrow> string" where
  "iso_year y =
     (if 0 \<le> y \<and> y \<le> 9999 then pad 4 (nat y)
      else if y < 0 then ''-'' @ pad 6 (nat (- y))
      else ''+'' @ pad 6 (nat y))"

fun iso_date :: "int \<times> nat \<times> nat \<Rightarrow> string" where
  "iso_date (y, m, d) = iso_year y @ ''-'' @ pad 2 m @ ''-'' @ pad 2 d"

definition iso_time :: "nat \<Rightarrow> string" where
  "iso_time ms =
     pad 2 (ms div 3600000) @ '':'' @ pad 2 (ms div 60000 mod 60) @ '':''
       @ pad 2 (ms div 1000 mod 60) @ ''.'' @ pad 3 (ms mod 1000)"

definition iso_string :: "int \<Rightarrow> string" where
  "iso_string t =
     iso_date (civil (t div 86400000)) @ ''T'' @ iso_time (nat (t mod 86400000)) @ ''Z''"

definition Date_toISOString :: "jsval \<Rightarrow> exn + jsval" where
  "Date_toISOString v =
     (case v of
        JDate (Some t) \<Rightarrow> Inr (JString (iso_string t))
      | JDate None \<Rightarrow> Inl RangeError
      | _ \<Rightarrow> Inl TypeError)"

text \<open>\<^verbatim>\<open>RegExp.prototype.toString\<close>.\<close>

definition RegExp_toString :: "jsval \<Rightarrow> exn + jsval" where
  "RegExp_toString v =
     (case v of
        JRegExp src fl \<Rightarrow> Inr (JString (''/'' @ src @ ''/'' @ fl))
      | _ \<Rightarrow> Inl TypeError)"

text \<open>
  \<^verbatim>\<open>++app.uid\<close> on a double holding a non-negative integer: exact below \<open>2^53\<close>, where
  \<open>2^53 + 1\<close> rounds back to \<open>2^53\<close>.
\<close>

definition incr :: "nat \<Rightarrow> nat" where
  "incr n = (if n < 2 ^ 53 then n + 1 else n)"

section \<open>The instance controls of \<^verbatim>\<open>html5/default/app/ctrl.js\<close>\<close>

subsection \<open>The app and its collaborators\<close>

text \<open>
  A task of the document listener's queue: \<^verbatim>\<open>{ module, method, args }\<close>.
\<close>

record task =
  tmodule :: string
  tmethod :: string
  args :: "jsval list"

text \<open>
  The calls that the functions of \<^verbatim>\<open>ctrl.js\<close> make to their collaborators, in the order
  they make them: \<^verbatim>\<open>app.differ.flush()\<close>, \<^verbatim>\<open>renderer.sendTasks(id, tasks, cb)\<close>,
  \<^verbatim>\<open>app.doc.listener.updateFinish()\<close>, \<^verbatim>\<open>app.doc.fireEvent(el, type, e, domChanges)\<close>,
  \<^verbatim>\<open>app.fireEvent(ref, type, e)\<close> and the call \<^verbatim>\<open>callback(data)\<close> of a stored function.
\<close>

datatype event =
    DifferFlush
  | SendTasks string "task list" string
  | UpdateFinish
  | DocFireEvent jsval jsval jsval jsval
  | AppFireEvent jsval jsval jsval
  | Invoke nat jsval

text \<open>
  A live app: \<^verbatim>\<open>app.id\<close>, the counter \<^verbatim>\<open>app.uid\<close>, the table \<^verbatim>\<open>app.callbacks\<close> (an
  object, so its keys are property names: strings), the queue
  \<^verbatim>\<open>app.doc.listener.updates\<close> of its document (\<open>None\<close> when the document has no listener)
  and the log of the collaborator calls made so far.
\<close>

record app =
  app_id :: string
  uid :: nat
  callbacks :: "string \<rightharpoonup> jsval"
  updates :: "task list option"
  log :: "event list"

text \<open>
  A computation on an app returns the app as it leaves it and either the exception it
  threw or its value. The collaborators are code outside \<^verbatim>\<open>ctrl.js\<close>; each may change
  the app in any way, return any value or throw. \<^verbatim>\<open>JSON.stringify\<close> is the host's.
\<close>

type_synonym 'a comp = "app \<Rightarrow> app \<times> (exn + 'a)"

record env =
  differ_flush :: "jsval comp"
  doc_getRef :: "app \<Rightarrow> jsval \<Rightarrow> jsval"
  doc_fireEvent :: "jsval \<Rightarrow> jsval \<Rightarrow> jsval \<Rightarrow> jsval \<Rightarrow> jsval comp"
  listener_updateFinish :: "jsval comp"
  app_fireEvent :: "jsval \<Rightarrow> jsval \<Rightarrow> jsval \<Rightarrow> jsval comp"
  call_function :: "nat \<Rightarrow> jsval \<Rightarrow> jsval comp"
  sendTasks :: "string \<Rightarrow> task list \<Rightarrow> string \<Rightarrow> jsval comp"
  JSON_stringify :: "jsval \<Rightarrow> exn + jsval"

text \<open>Sequencing: an exception ends the computation and keeps the app reached.\<close>

definition bind :: "'a comp \<Rightarrow> ('a \<Rightarrow> 'b comp) \<Rightarrow> 'b comp" where
  "bind m f a = (case m a of (a', Inl e) \<Rightarrow> (a', Inl e) | (a', Inr x) \<Rightarrow> f x a')"

definition return :: "'a \<Rightarrow> 'a comp" where
  "return x a = (a, Inr x)"

text \<open>
  A call to a collaborator is entered in the log; the log holds the calls made by the
  functions below and is not the collaborator's to change.
\<close>

definition perform :: "event \<Rightarrow> jsval comp \<Rightarrow> jsval comp" where
  "perform ev f a = (case f a of (a', r) \<Rightarrow> (a'\<lparr>log := log a @ [ev]\<rparr>, r))"

subsection \<open>\<^verbatim>\<open>normalize\<close>\<close>

fun ref :: "jsval \<Rightarrow> jsval" where
  "ref (JElement r) = JString r"
| "ref v = JUndefined"

definition element_or_self :: "jsval \<Rightarrow> jsval comp" where
  "element_or_self v = (if instanceof_Element v then return (ref v) else return v)"

definition normalize :: "env \<Rightarrow> jsval \<Rightarrow> jsval comp" where
  "normalize env v a =
     (case typof v of
        TUndefined \<Rightarrow> return (JString '''') a
      | TNull \<Rightarrow> return (JString '''') a
      | TRegexp \<Rightarrow> (a, RegExp_toString v)
      | TDate \<Rightarrow> (a, Date_toISOString v)
      | TNumber \<Rightarrow> element_or_self v a
      | TString \<Rightarrow> element_or_self v a
      | TBoolean \<Rightarrow> element_or_self v a
      | TArray \<Rightarrow> element_or_self v a
      | TObject \<Rightarrow> element_or_self v a
      | TFunction \<Rightarrow>
          (let a1 = a\<lparr>uid := incr (uid a)\<rparr>;
               a2 = a1\<lparr>callbacks := (callbacks a1)(dec (uid a1) \<mapsto> v)\<rparr>
           in return (JString (dec (uid a2))) a2)
      | TOther tag \<Rightarrow> (a, JSON_stringify env v))"

subsection \<open>\<^verbatim>\<open>callTasks\<close> and \<^verbatim>\<open>updateActions\<close>\<close>

text \<open>\<^verbatim>\<open>task.args.map(arg => normalize(arg, app))\<close>, and the \<^verbatim>\<open>forEach\<close> over the tasks.\<close>

fun normalize_args :: "env \<Rightarrow> jsval list \<Rightarrow> jsval list comp" where
  "normalize_args env [] = return []"
| "normalize_args env (v # vs) =
     bind (normalize env v) (\<lambda>x. bind (normalize_args env vs) (\<lambda>xs. return (x # xs)))"

fun normalize_tasks :: "env \<Rightarrow> task list \<Rightarrow> task list comp" where
  "normalize_tasks env [] = return []"
| "normalize_tasks env (t # ts) =
     bind (normalize_args env (args t))
       (\<lambda>as. bind (normalize_tasks env ts) (\<lambda>ts'. return (t\<lparr>args := as\<rparr> # ts')))"

text \<open>The argument of \<^verbatim>\<open>callTasks\<close> is one task or an array of tasks.\<close>

datatype tasks_arg = Single task | Several "task list"

definition callTasks :: "env \<Rightarrow> tasks_arg \<Rightarrow> jsval comp" where
  "callTasks env tasks =
     bind (normalize_tasks env (case tasks of Single t \<Rightarrow> [t] | Several ts \<Rightarrow> ts))
       (\<lambda>tasks' a. perform (SendTasks (app_id a) tasks' ''-1'')
                      (sendTasks env (app_id a) tasks' ''-1'') a)"

definition drain :: "app \<Rightarrow> task list \<times> app" where
  "drain a =
     (case updates a of
        Some us \<Rightarrow> if us \<noteq> [] then (us, a\<lparr>updates := Some []\<rparr>) else ([], a)
      | None \<Rightarrow> ([], a))"

definition updateActions :: "env \<Rightarrow> jsval comp" where
  "updateActions env =
     bind (perform DifferFlush (differ_flush env))
       (\<lambda>_ a. case drain a of
                 (tasks, a') \<Rightarrow>
                   if tasks \<noteq> [] then callTasks env (Several tasks) a'
                   else return JUndefined a')"

text \<open>
  \<^verbatim>\<open>app.doc.listener.updateFinish()\<close>: without a listener the call is made on
  \<^verbatim>\<open>undefined\<close> and throws.
\<close>

definition updateFinish :: "env \<Rightarrow> jsval comp" where
  "updateFinish env a =
     (case updates a of
        None \<Rightarrow> (a, Inl TypeError)
      | Some us \<Rightarrow> perform UpdateFinish (listener_updateFinish env) a)"

subsection \<open>\<^verbatim>\<open>fireEvent\<close>\<close>

text \<open>
  \<^verbatim>\<open>ref.some((ref) => app.fireEvent(ref, type, e) !== false)\<close>: the candidates in order,
  until one dispatch returns something other than \<^verbatim>\<open>false\<close>.
\<close>

fun some_fire :: "env \<Rightarrow> jsval list \<Rightarrow> jsval \<Rightarrow> jsval \<Rightarrow> bool comp" where
  "some_fire env [] type e = return False"
| "some_fire env (r # rs) type e =
     bind (perform (AppFireEvent r type e) (app_fireEvent env r type e))
       (\<lambda>v. if v \<noteq> JBoolean False then return True else some_fire env rs type e)"

definition fireEvent :: "env \<Rightarrow> jsval \<Rightarrow> jsval \<Rightarrow> jsval \<Rightarrow> jsval \<Rightarrow> jsval comp" where
  "fireEvent env rf type e domChanges a =
     (case rf of
        JArray refs \<Rightarrow> bind (some_fire env refs type e) (\<lambda>_. return JUndefined) a
      | _ \<Rightarrow>
          (let el = doc_getRef env a rf in
           if truthy el then
             bind (perform (DocFireEvent el type e domChanges)
                     (doc_fireEvent env el type e domChanges))
               (\<lambda>result. bind (updateActions env)
                  (\<lambda>_. bind (updateFinish env)
                     (\<lambda>_. return result))) a
           else return (JError ''invalid element reference'' rf) a))"

subsection \<open>\<^verbatim>\<open>callback\<close>\<close>

text \<open>
  \<^verbatim>\<open>app.callbacks[callbackId]\<close> reads a property: \<open>callbackId\<close> is taken as the property
  name it converts to. A slot that was never written reads as \<^verbatim>\<open>undefined\<close>.
\<close>

definition slot :: "app \<Rightarrow> string \<Rightarrow> jsval" where
  "slot a k = (case callbacks a k of Some v \<Rightarrow> v | None \<Rightarrow> JUndefined)"

definition clear_unless_kept :: "string \<Rightarrow> jsval \<Rightarrow> app \<Rightarrow> app" where
  "clear_unless_kept callbackId ifKeepAlive a =
     (if ifKeepAlive = JUndefined \<or> ifKeepAlive = JBoolean False
      then a\<lparr>callbacks := (callbacks a)(callbackId \<mapsto> JUndefined)\<rparr>
      else a)"

definition callback :: "env \<Rightarrow> string \<Rightarrow> jsval \<Rightarrow> jsval \<Rightarrow> jsval comp" where
  "callback env callbackId data ifKeepAlive a =
     (case slot a callbackId of
        JFunction f \<Rightarrow>
          bind (perform (Invoke f data) (call_function env f data))
            (\<lambda>_ a1. bind (updateActions env)
               (\<lambda>_. bind (updateFinish env)
                  (\<lambda>_. return JUndefined))
               (clear_unless_kept callbackId ifKeepAlive a1)) a
      | _ \<Rightarrow> return (JError ''invalid callback id'' (JString callbackId)) a)"

section \<open>The instance registry of \<^verbatim>\<open>html5/runtime/index.js\<close>\<close>

subsection \<open>The regular expression \<^verbatim>\<open>versionRegExp\<close>\<close>

text \<open>
  The fragment of regular expressions that \<^verbatim>\<open>/^\/\/ *(\{[^\}]*\}) *\r?\n/\<close> is written in:
  a character, a negated one-character class, the greedy star of either, an optional
  part and concatenation. \<open>run r s\<close> lists the ways \<open>r\<close> matches a prefix of \<open>s\<close>, each
  as the text matched and the text left, in the order a backtracking matcher tries them
  (a greedy star tries the longest match first, an optional part its presence first).
\<close>

datatype atom = Chr char | NotChr char

datatype rx = Atom atom | Star atom | Opt rx | Seq rx rx

fun atom_ok :: "atom \<Rightarrow> char \<Rightarrow> bool" where
  "atom_ok (Chr c) x = (x = c)"
| "atom_ok (NotChr c) x = (x \<noteq> c)"

fun star_run :: "atom \<Rightarrow> string \<Rightarrow> (string \<times> string) list" where
  "star_run a [] = [([], [])]"
| "star_run a (c # cs) =
     (if atom_ok a c
      then map (\<lambda>(m, r). (c # m, r)) (star_run a cs) @ [([], c # cs)]
      else [([], c # cs)])"

fun run :: "rx \<Rightarrow> string \<Rightarrow> (string \<times> string) list" where
  "run (Atom a) s = (case s of [] \<Rightarrow> [] | c # cs \<Rightarrow> if atom_ok a c then [([c], cs)] else [])"
| "run (Star a) s = star_run a s"
| "run (Opt r) s = run r s @ [([], s)]"
| "run (Seq r1 r2) s =
     concat (map (\<lambda>(m1, s1). map (\<lambda>(m2, s2). (m1 @ m2, s2)) (run r2 s1)) (run r1 s))"

definition CR :: char where
  "CR = CHR 0x0D"

definition LF :: char where
  "LF = CHR 0x0A"

text \<open>
  The three parts of \<^verbatim>\<open>versionRegExp\<close>: what precedes the capturing group, the group
  and what follows it.
\<close>

definition version_pre :: rx where
  "version_pre = Seq (Atom (Chr (CHR ''/''))) (Seq (Atom (Chr (CHR ''/''))) (Star (Chr (CHR '' ''))))"

definition version_group :: rx where
  "version_group =
     Seq (Atom (Chr (CHR ''{''))) (Seq (Star (NotChr (CHR ''}''))) (Atom (Chr (CHR ''}''))))"

definition version_post :: rx where
  "version_post = Seq (Star (Chr (CHR '' ''))) (Seq (Opt (Atom (Chr CR))) (Atom (Chr LF)))"

text \<open>
  \<^verbatim>\<open>versionRegExp.exec(code)\<close>, read at \<^verbatim>\<open>result[1]\<close>: the expression is anchored by \<^verbatim>\<open>^\<close>
  and has no flag, so the only match is at the start of \<open>code\<close>; the result is the text
  of the group in the first way the whole expression matches, \<open>None\<close> for \<^verbatim>\<open>null\<close>.
\<close>

definition versionRegExp_exec :: "string \<Rightarrow> string option" where
  "versionRegExp_exec code =
     (case concat (map (\<lambda>(m1, s1).
             concat (map (\<lambda>(g, s2). map (\<lambda>(m3, s3). g) (run version_post s2))
                       (run version_group s1)))
           (run version_pre code)) of
        [] \<Rightarrow> None
      | g # _ \<Rightarrow> Some g)"

subsection \<open>Objects, frameworks and the registry\<close>

text \<open>A plain object: its own properties. A property that is absent reads as \<^verbatim>\<open>undefined\<close>.\<close>

type_synonym obj = "(string \<times> jsval) list"

definition get_prop :: "obj \<Rightarrow> string \<Rightarrow> jsval" where
  "get_prop ob k = (case map_of ob k of Some v \<Rightarrow> v | None \<Rightarrow> JUndefined)"

definition set_prop :: "string \<Rightarrow> jsval \<Rightarrow> obj \<Rightarrow> obj" where
  "set_prop k v ob = (k, v) # filter (\<lambda>(k', _). k' \<noteq> k) ob"

text \<open>
  The registry \<^verbatim>\<open>instanceMap\<close>: the own properties of the object, each an instance
  object. The module also publishes it, as \<^verbatim>\<open>global.WXInstanceMap\<close>.
\<close>

type_synonym registry = "string \<rightharpoonup> obj"

text \<open>
  A framework of \<^verbatim>\<open>./config\<close> (not among the sources): the methods it implements.
  \<^verbatim>\<open>prepareInstance\<close> builds an instance shell, an object, and \<^verbatim>\<open>createInstance\<close> is taken
  by its outcome alone. A method reached through \<^verbatim>\<open>genInstance\<close> (\<^verbatim>\<open>destroyInstance\<close>,
  \<^verbatim>\<open>refreshInstance\<close>, \<^verbatim>\<open>receiveTasks\<close>, \<^verbatim>\<open>getRoot\<close>) runs with the published registry
  in view: it receives its arguments and the registry as it finds it, and gives back the
  registry as it leaves it and the value it returns or the exception it throws.
\<close>

record framework =
  prepareInstance_of :: "(string \<Rightarrow> obj option \<Rightarrow> jsval \<Rightarrow> exn + obj) option"
  createInstance_of :: "(string \<Rightarrow> string \<Rightarrow> obj \<Rightarrow> jsval \<Rightarrow> exn + jsval) option"
  method_of :: "string \<rightharpoonup> (jsval list \<Rightarrow> registry \<Rightarrow> registry \<times> (exn + jsval))"

text \<open>
  What the module finds around it. \<open>frameworks k\<close> is \<^verbatim>\<open>frameworks[k]\<close>, the lookup under
  the property name that the value \<open>k\<close> converts to (\<open>None\<close> for \<^verbatim>\<open>undefined\<close>; a member that
  the object \<^verbatim>\<open>frameworks\<close> inherits is found too, as a framework with no method).
  \<open>inherited k\<close> is the member named \<open>k\<close> that a plain object such as \<^verbatim>\<open>instanceMap\<close>
  inherits from \<^verbatim>\<open>Object.prototype\<close> (\<^verbatim>\<open>toString\<close>, \<^verbatim>\<open>constructor\<close>, \<^verbatim>\<open>__proto__\<close>, ...), \<open>None\<close>
  when there is none. \<open>JSON_parse\<close> is the host's \<^verbatim>\<open>JSON.parse\<close> on a text that starts with
  a brace, where it returns an object or throws.
\<close>

record host =
  frameworks :: "jsval \<Rightarrow> framework option"
  inherited :: "string \<Rightarrow> jsval option"
  JSON_parse :: "string \<Rightarrow> exn + obj"

text \<open>The calls made to framework methods, in order.\<close>

datatype call =
    PrepareCall jsval string "obj option" jsval
  | CreateCall jsval string string obj jsval
  | MethodCall jsval string "jsval list"

text \<open>The module's state: \<^verbatim>\<open>instanceMap\<close>, and the calls it has made to frameworks.\<close>

record runtime =
  instanceMap :: registry
  calls :: "call list"

text \<open>
  \<^verbatim>\<open>instanceMap[id]\<close>: the own property, or else the inherited member, or else
  \<^verbatim>\<open>undefined\<close>. \<^verbatim>\<open>info.framework\<close> reads a property of what was found; an inherited member
  is a built-in function or the prototype and has no such property. A write
  \<^verbatim>\<open>instanceMap[id] = v\<close> makes an own property and \<^verbatim>\<open>delete instanceMap[id]\<close> removes one
  (the id \<^verbatim>\<open>__proto__\<close>, whose assignment would replace the prototype instead, is left
  aside in the writes).
\<close>

definition lookup :: "host \<Rightarrow> registry \<Rightarrow> string \<Rightarrow> jsval" where
  "lookup h reg k =
     (case reg k of
        Some ob \<Rightarrow> JObject ob
      | None \<Rightarrow> (case inherited h k of Some v \<Rightarrow> v | None \<Rightarrow> JUndefined))"


subsection \<open>\<^verbatim>\<open>checkVersion\<close>\<close>

definition checkVersion :: "host \<Rightarrow> string \<Rightarrow> obj option" where
  "checkVersion h code =
     (case versionRegExp_exec code of
        Some g \<Rightarrow> (case JSON_parse h g of Inr info \<Rightarrow> Some info | Inl e \<Rightarrow> None)
      | None \<Rightarrow> None)"

subsection \<open>\<^verbatim>\<open>prepareInstance\<close>, \<^verbatim>\<open>createInstance\<close> and the methods made by \<^verbatim>\<open>genInstance\<close>\<close>

definition prepareInstance ::
  "host \<Rightarrow> string \<Rightarrow> jsval \<Rightarrow> obj option \<Rightarrow> jsval \<Rightarrow> runtime \<Rightarrow> runtime \<times> (exn + jsval)" where
  "prepareInstance h ident type config data rt =
     (let type' = (if truthy type then type else JString ''Weex'') in
      case (case frameworks h type' of Some fw \<Rightarrow> prepareInstance_of fw | None \<Rightarrow> None) of
        Some prepare \<Rightarrow>
          (let rt1 = rt\<lparr>calls := calls rt @ [PrepareCall type' ident config data]\<rparr> in
           case prepare ident config data of
             Inl e \<Rightarrow> (rt1, Inl e)
           | Inr shell \<Rightarrow>
               (rt1\<lparr>instanceMap := (instanceMap rt1)(ident \<mapsto> set_prop ''framework'' type' shell)\<rparr>,
                Inr JUndefined))
      | None \<Rightarrow> (rt\<lparr>instanceMap := (instanceMap rt)(ident \<mapsto> [])\<rparr>, Inr JUndefined))"

definition createInstance ::
  "host \<Rightarrow> string \<Rightarrow> string \<Rightarrow> obj option \<Rightarrow> jsval \<Rightarrow> runtime \<Rightarrow> runtime \<times> (exn + jsval)" where
  "createInstance h ident code config data rt =
     (if \<not> truthy (lookup h (instanceMap rt) ident) then
          (let info0 = (case checkVersion h code of Some ob \<Rightarrow> ob | None \<Rightarrow> []);
               info = (if frameworks h (get_prop info0 ''framework'') = None
                       then set_prop ''framework'' (JString ''Weex'') info0 else info0);
               rt1 = rt\<lparr>instanceMap := (instanceMap rt)(ident \<mapsto> info)\<rparr>;
               config' = set_prop ''bundleVersion'' (get_prop info ''version'')
                           (case config of Some c \<Rightarrow> c | None \<Rightarrow> [])
           in case frameworks h (get_prop info ''framework'') of
                None \<Rightarrow> (rt1, Inl TypeError)
              | Some fw \<Rightarrow>
                  (case createInstance_of fw of
                     None \<Rightarrow> (rt1, Inl TypeError)
                   | Some create \<Rightarrow>
                       (rt1\<lparr>calls := calls rt1
                              @ [CreateCall (get_prop info ''framework'') ident code config' data]\<rparr>,
                        create ident code config' data)))
      else (rt, Inr (JError ''invalid instance id'' (JString ident))))"



section \<open>Notions used in the statements, and concrete collaborators\<close>

text \<open>
  \<open>live_in v\<close>: a function or a document element occurs in \<open>v\<close>, at the top or inside an
  array or an object.
\<close>

fun live_in :: "jsval \<Rightarrow> bool" where
  "live_in (JFunction f) = True"
| "live_in (JElement r) = True"
| "live_in (JArray vs) = list_ex live_in vs"
| "live_in (JObject kvs) = list_ex (\<lambda>kv. live_in (snd kv)) kvs"
| "live_in v = False"

text \<open>Collaborators that change nothing and return \<^verbatim>\<open>undefined\<close>, and an app just created.\<close>

definition quiet :: "jsval comp" where
  "quiet a = (a, Inr JUndefined)"

definition quiet_env :: env where
  "quiet_env = \<lparr>differ_flush = quiet, doc_getRef = (\<lambda>a r. JUndefined),
     doc_fireEvent = (\<lambda>el t e d. quiet), listener_updateFinish = quiet,
     app_fireEvent = (\<lambda>r t e. quiet), call_function = (\<lambda>f d. quiet),
     sendTasks = (\<lambda>i ts c. quiet), JSON_stringify = (\<lambda>v. Inr JUndefined)\<rparr>"

definition fresh_app :: app where
  "fresh_app = \<lparr>app_id = ''x'', uid = 0, callbacks = Map.empty, updates = Some [], log = []\<rparr>"



text \<open>Collaborators among which the dispatch to the candidate \<^verbatim>\<open>'B'\<close> alone answers \<^verbatim>\<open>true\<close>.\<close>

definition abc_env :: env where
  "abc_env = quiet_env\<lparr>app_fireEvent := (\<lambda>r t e a. (a, Inr (JBoolean (r = JString ''B''))))\<rparr>"

text \<open>
  Collaborators whose document resolves the reference \<^verbatim>\<open>'7'\<close> alone, to an element whose
  handler answers \<^verbatim>\<open>'handled'\<close>.
\<close>

definition el_env :: env where
  "el_env = quiet_env\<lparr>
     doc_getRef := (\<lambda>a r. if r = JString ''7'' then JElement ''7'' else JUndefined),
     doc_fireEvent := (\<lambda>el t e d a. (a, Inr (JString ''handled'')))\<rparr>"

text \<open>Collaborators among which every dispatch to a candidate throws.\<close>

definition throw_env :: env where
  "throw_env = quiet_env\<lparr>app_fireEvent := (\<lambda>r t e a. (a, Inl TypeError))\<rparr>"

text \<open>An app in which one function has been registered, under the id \<^verbatim>\<open>'1'\<close>.\<close>

definition registered_app :: app where
  "registered_app = fresh_app\<lparr>uid := 1, callbacks := [''1'' \<mapsto> JFunction 5]\<rparr>"

text \<open>
  \<open>holds_slot k x b\<close>: in the app \<open>b\<close> the counter has reached \<open>k\<close> and the slot of \<open>k\<close> holds
  \<open>x\<close>. \<open>keeps env k x\<close>: the differ's flush, the transport and the update-finished
  signal leave that so.
\<close>

definition holds_slot :: "nat \<Rightarrow> jsval \<Rightarrow> app \<Rightarrow> bool" where
  "holds_slot k x b = (k \<le> uid b \<and> callbacks b (dec k) = Some x)"

definition keeps :: "env \<Rightarrow> nat \<Rightarrow> jsval \<Rightarrow> bool" where
  "keeps env k x =
     (\<forall>b. holds_slot k x b \<longrightarrow>
        holds_slot k x (fst (differ_flush env b))
        \<and> holds_slot k x (fst (listener_updateFinish env b))
        \<and> (\<forall>i ts c. holds_slot k x (fst (sendTasks env i ts c b))))"

text \<open>
  The match of \<^verbatim>\<open>versionRegExp\<close> computed without backtracking: two slashes, spaces, an
  opening brace, everything up to the next closing brace, spaces, and a line feed that
  a carriage return may precede.
\<close>

fun ends_line :: "string \<Rightarrow> bool" where
  "ends_line [] = False"
| "ends_line (c # cs) = (c = LF \<or> (c = CR \<and> (case cs of [] \<Rightarrow> False | d # ds \<Rightarrow> d = LF)))"

definition brace_text :: "string \<Rightarrow> string option" where
  "brace_text s =
     (case s of
        [] \<Rightarrow> None
      | c # r \<Rightarrow>
          if c = CHR ''{'' then
            (case dropWhile (\<lambda>x. x \<noteq> CHR ''}'') r of
               [] \<Rightarrow> None
             | d # r' \<Rightarrow>
                 if ends_line (dropWhile (\<lambda>x. x = CHR '' '') r')
                 then Some (CHR ''{'' # takeWhile (\<lambda>x. x \<noteq> CHR ''}'') r @ ''}'')
                 else None)
          else None)"

definition sniff_header :: "string \<Rightarrow> string option" where
  "sniff_header code =
     (case code of
        c1 # c2 # r \<Rightarrow>
          if c1 = CHR ''/'' \<and> c2 = CHR ''/'' then brace_text (dropWhile (\<lambda>x. x = CHR '' '') r)
          else None
      | _ \<Rightarrow> None)"

text \<open>The ways the group and what follows it match, as the texts of the group.\<close>

definition group_texts :: "string \<Rightarrow> string list" where
  "group_texts s =
     concat (map (\<lambda>p. map (\<lambda>q. fst p) (run version_post (snd p))) (run version_group s))"

text \<open>
  A host with two frameworks. \<^verbatim>\<open>Weex\<close> has no \<^verbatim>\<open>prepareInstance\<close> and its teardown throws;
  \<^verbatim>\<open>Foo\<close> has every method. Its objects inherit the members that \<^verbatim>\<open>Object.prototype\<close> has
  in ECMAScript, the methods shown as one function and the prototype as an object
  without its members. Its \<^verbatim>\<open>JSON.parse\<close> is given on the two texts that the examples
  below parse.
\<close>

definition foo_text :: string where
  "foo_text = ''{\"framework\":\"Foo\",\"version\":\"1.0\"}''"

definition foo_info :: obj where
  "foo_info = [(''framework'', JString ''Foo''), (''version'', JString ''1.0'')]"

definition weex_fw :: framework where
  "weex_fw = \<lparr>prepareInstance_of = None,
     createInstance_of = Some (\<lambda>i c cfg d. Inr (JString ''weex instance'')),
     method_of = [''destroyInstance''
                    \<mapsto> (\<lambda>as reg. (reg, Inl (Raised (JString ''teardown failed''))))]\<rparr>"

definition foo_fw :: framework where
  "foo_fw = \<lparr>prepareInstance_of = Some (\<lambda>i cfg d. Inr [(''shell'', JBoolean True)]),
     createInstance_of = Some (\<lambda>i c cfg d. Inr (JString ''foo instance'')),
     method_of = [''destroyInstance'' \<mapsto> (\<lambda>as reg. (reg, Inr JUndefined))]\<rparr>"

definition object_members :: "string list" where
  "object_members = [''constructor'', ''hasOwnProperty'', ''isPrototypeOf'',
     ''propertyIsEnumerable'', ''toLocaleString'', ''toString'', ''valueOf'',
     ''__defineGetter__'', ''__defineSetter__'', ''__lookupGetter__'', ''__lookupSetter__'']"

definition host0 :: host where
  "host0 = \<lparr>
     frameworks = (\<lambda>k. if k = JString ''Weex'' then Some weex_fw
                        else if k = JString ''Foo'' then Some foo_fw else None),
     inherited = (\<lambda>k. if k \<in> set object_members then Some (JFunction 0)
                       else if k = ''__proto__'' then Some (JObject []) else None),
     JSON_parse = (\<lambda>s. if s = foo_text then Inr foo_info
                        else if s = ''{'' @ [LF] @ ''}'' then Inr []
                        else Inl SyntaxError)\<rparr>"

definition empty_runtime :: runtime where
  "empty_runtime = \<lparr>instanceMap = Map.empty, calls = []\<rparr>"


definition foo_bundle :: string where
  "foo_bundle = ''// '' @ foo_text @ [LF] @ ''code''"




section \<open>Decimal strings and the counter\<close>

lemma dec_small: "n < 10 \<Longrightarrow> dec n = [digit n]"
  by (subst dec.simps) simp

lemma dec_big: "\<not> n < 10 \<Longrightarrow> dec n = dec (n div 10) @ [digit (n mod 10)]"
  by (subst dec.simps) simp

lemma dec_not_Nil: "dec n \<noteq> []"
  by (subst dec.simps) simp

lemma digit_inj: "i < 10 \<Longrightarrow> j < 10 \<Longrightarrow> digit i = digit j \<Longrightarrow> i = j"
proof -
  assume a: "i < 10" "j < 10" "digit i = digit j"
  have d: "distinct ''0123456789''" by simp
  have "i < length ''0123456789''" "j < length ''0123456789''" using a by simp_all
  with d a(3) show "i = j" unfolding digit_def by (simp only: nth_eq_iff_index_eq)
qed

text \<open>Two counter values with the same decimal string are the same.\<close>

lemma dec_inj: "dec m = dec n \<Longrightarrow> m = n"
proof (induction m arbitrary: n rule: dec.induct)
  case (1 m)
  show ?case
  proof (cases "m < 10")
    case True
    then have dm: "dec m = [digit m]" by (rule dec_small)
    show ?thesis
    proof (cases "n < 10")
      case True
      then have "dec n = [digit n]" by (rule dec_small)
      with dm "1.prems" \<open>m < 10\<close> True show ?thesis by (simp add: digit_inj)
    next
      case False
      then have "dec n = dec (n div 10) @ [digit (n mod 10)]" by (rule dec_big)
      with dm "1.prems" dec_not_Nil [of "n div 10"] show ?thesis by simp
    qed
  next
    case False
    then have dm: "dec m = dec (m div 10) @ [digit (m mod 10)]" by (rule dec_big)
    show ?thesis
    proof (cases "n < 10")
      case True
      then have "dec n = [digit n]" by (rule dec_small)
      with dm "1.prems" dec_not_Nil [of "m div 10"] show ?thesis by simp
    next
      case n: False
      then have dn: "dec n = dec (n div 10) @ [digit (n mod 10)]" by (rule dec_big)
      from dm dn "1.prems" have e1: "dec (m div 10) = dec (n div 10)"
        and e2: "digit (m mod 10) = digit (n mod 10)" by simp_all
      from "1.IH" [OF False e1] have q: "m div 10 = n div 10" .
      from e2 have r: "m mod 10 = n mod 10" by (simp add: digit_inj)
      from q r show ?thesis by (metis div_mult_mod_eq)
    qed
  qed
qed

lemma incr_fresh: "k \<le> u \<Longrightarrow> k < 2 ^ 53 \<Longrightarrow> incr u \<noteq> k"
  by (simp add: incr_def)

lemma incr_mono: "u \<le> incr u"
  by (simp add: incr_def)

section \<open>The ISO string of the epoch\<close>

lemma replicate_small: "replicate 2 x = [x, x]" "replicate 3 x = [x, x, x]"
  by (simp_all add: numeral_2_eq_2 numeral_3_eq_3)

lemma civil_epoch: "civil 0 = (1970, 1, 1)"
  by (simp add: civil_def year_of_def month_of_def day_of_def mp_of_def doy_of_def yoe_of_def)

lemma iso_date_epoch: "iso_date (1970, Suc 0, Suc 0) = ''1970-01-01''"
  by (simp add: iso_year_def pad_def dec_small dec_big digit_def)

lemma iso_time_midnight: "iso_time 0 = ''00:00:00.000''"
  by (simp add: iso_time_def pad_def dec_small digit_def replicate_small)

lemma iso_string_epoch: "iso_string 0 = ''1970-01-01T00:00:00.000Z''"
  by (simp add: iso_string_def civil_epoch iso_date_epoch iso_time_midnight del: iso_date.simps)

section \<open>\<^verbatim>\<open>normalize\<close>: the classification\<close>

lemma normalize_function:
  "normalize env (JFunction f) a =
     (a\<lparr>uid := incr (uid a), callbacks := (callbacks a)(dec (incr (uid a)) \<mapsto> JFunction f)\<rparr>,
      Inr (JString (dec (incr (uid a)))))"
  by (simp add: normalize_def return_def Let_def)

lemma normalize_passes:
  "typof v \<in> {TNumber, TString, TBoolean, TArray, TObject} \<Longrightarrow> \<not> instanceof_Element v \<Longrightarrow>
   normalize env v a = (a, Inr v)"
  by (auto simp: normalize_def element_or_self_def return_def)

lemma normalize_top:
  "(\<forall>tag. typof v \<noteq> TOther tag) \<Longrightarrow> normalize env v a = (a', Inr w) \<Longrightarrow>
   \<not> is_function w \<and> \<not> instanceof_Element w"
  by (cases v) (auto simp: normalize_def element_or_self_def return_def RegExp_toString_def
      Date_toISOString_def Let_def split: option.splits)

text \<open>
  Claim C1, as the code has it. \<^verbatim>\<open>normalize(v, app)\<close> maps \<^verbatim>\<open>undefined\<close> and \<^verbatim>\<open>null\<close> to the
  empty string, a regular expression to its string form (\<^verbatim>\<open>/a/\<close> to \<^verbatim>\<open>'/a/'\<close>), a valid
  date to its ISO string (the epoch to \<^verbatim>\<open>'1970-01-01T00:00:00.000Z'\<close>), a document element
  to its \<^verbatim>\<open>ref\<close>, any other number, string, boolean, array or object to itself, a function
  to the next counter value, under which it is stored in the callback table and which is
  returned in decimal, and any other value to what \<^verbatim>\<open>JSON.stringify\<close> gives. Hence the
  result for a value of the named classes is never itself a function or an element; what
  an array or an object holds is not looked at.
\<close>

theorem normalize_table:
  "normalize env JUndefined a = (a, Inr (JString ''''))
   \<and> normalize env JNull a = (a, Inr (JString ''''))
   \<and> normalize env (JRegExp src fl) a = (a, Inr (JString (''/'' @ src @ ''/'' @ fl)))
   \<and> normalize env (JRegExp ''a'' '''') a = (a, Inr (JString ''/a/''))
   \<and> normalize env (JDate (Some t)) a = (a, Inr (JString (iso_string t)))
   \<and> normalize env (JDate (Some 0)) a = (a, Inr (JString ''1970-01-01T00:00:00.000Z''))
   \<and> normalize env (JElement r) a = (a, Inr (JString r))
   \<and> (typof v \<in> {TNumber, TString, TBoolean, TArray, TObject} \<and> \<not> instanceof_Element v
        \<longrightarrow> normalize env v a = (a, Inr v))
   \<and> normalize env (JFunction f) a =
       (a\<lparr>uid := incr (uid a), callbacks := (callbacks a)(dec (incr (uid a)) \<mapsto> JFunction f)\<rparr>,
        Inr (JString (dec (incr (uid a)))))
   \<and> (typof v = TOther tag \<longrightarrow> normalize env v a = (a, JSON_stringify env v))
   \<and> ((\<forall>tag. typof v \<noteq> TOther tag) \<and> normalize env v a = (a', Inr w)
        \<longrightarrow> \<not> is_function w \<and> \<not> instanceof_Element w)"
proof -
  have 1: "normalize env JUndefined a = (a, Inr (JString ''''))"
    and 2: "normalize env JNull a = (a, Inr (JString ''''))"
    and 3: "normalize env (JRegExp src fl) a = (a, Inr (JString (''/'' @ src @ ''/'' @ fl)))"
    and 4: "normalize env (JRegExp ''a'' '''') a = (a, Inr (JString ''/a/''))"
    and 5: "normalize env (JDate (Some t)) a = (a, Inr (JString (iso_string t)))"
    and 7: "normalize env (JElement r) a = (a, Inr (JString r))"
    by (simp_all add: normalize_def return_def RegExp_toString_def Date_toISOString_def
        element_or_self_def)
  have 6: "normalize env (JDate (Some 0)) a = (a, Inr (JString ''1970-01-01T00:00:00.000Z''))"
    by (simp add: normalize_def Date_toISOString_def iso_string_epoch)
  have 10: "typof v = TOther tag \<longrightarrow> normalize env v a = (a, JSON_stringify env v)"
    by (simp add: normalize_def)
  from 1 2 3 4 5 6 7 10 normalize_function [of env f a] normalize_passes [of v env a]
    normalize_top [of v env a a' w]
  show ?thesis by blast
qed

text \<open>The table at a string, at a symbol and at the top-level consequence.\<close>

theorem normalize_table_witness:
  "normalize quiet_env (JString ''abc'') fresh_app = (fresh_app, Inr (JString ''abc''))
   \<and> normalize quiet_env (JOther ''symbol'' 0) fresh_app = (fresh_app, Inr JUndefined)
   \<and> \<not> is_function (JString ''abc'')"
  using normalize_table [of quiet_env fresh_app "''''" "''''" 0 "''''" "JString ''abc''" 0
      "''symbol''" fresh_app "JString ''abc''"]
    normalize_table [of quiet_env fresh_app "''''" "''''" 0 "''''" "JOther ''symbol'' 0" 0
      "''symbol''" fresh_app "JString ''abc''"]
  by (simp add: quiet_env_def)

text \<open>
  Against C1 as stated: an array holding a function and an element is returned as it is,
  so a live function and a live element appear in a normalized result; and an invalid
  date has no ISO string, \<^verbatim>\<open>toISOString\<close> throws.
\<close>

theorem normalize_nested_counterexample:
  "normalize quiet_env (JArray [JFunction 7, JElement ''3'']) fresh_app
     = (fresh_app, Inr (JArray [JFunction 7, JElement ''3'']))
   \<and> live_in (JArray [JFunction 7, JElement ''3''])
   \<and> normalize quiet_env (JDate None) fresh_app = (fresh_app, Inl RangeError)"
  by (simp add: normalize_def element_or_self_def return_def Date_toISOString_def)

section \<open>Sequencing\<close>

lemma bind_Inl: "m a = (a', Inl e) \<Longrightarrow> bind m f a = (a', Inl e)"
  by (simp add: bind_def)

lemma bind_Inr: "m a = (a', Inr x) \<Longrightarrow> bind m f a = f x a'"
  by (simp add: bind_def)

lemma bind_fst:
  assumes "\<And>a' e. m a = (a', Inl e) \<Longrightarrow> P a'"
    and "\<And>a' x. m a = (a', Inr x) \<Longrightarrow> P (fst (f x a'))"
  shows "P (fst (bind m f a))"
proof (cases "m a")
  case (Pair a' r)
  then show ?thesis using assms by (cases r) (simp_all add: bind_def)
qed

lemma perform_log: "log (fst (perform ev f a)) = log a @ [ev]"
  by (simp add: perform_def split: prod.splits)

lemma perform_snd: "snd (perform ev f a) = snd (f a)"
  by (simp add: perform_def split: prod.splits)

section \<open>What \<^verbatim>\<open>normalize\<close> leaves alone\<close>

lemma normalize_fst:
  "fst (normalize env v a) =
     (if is_function v
      then a\<lparr>uid := incr (uid a), callbacks := (callbacks a)(dec (incr (uid a)) \<mapsto> v)\<rparr>
      else a)"
  by (cases v) (simp_all add: normalize_def return_def element_or_self_def Let_def)

lemma normalize_log: "log (fst (normalize env v a)) = log a"
  by (simp add: normalize_fst)

lemma normalize_app_id: "app_id (fst (normalize env v a)) = app_id a"
  by (simp add: normalize_fst)


lemma normalize_uid: "uid a \<le> uid (fst (normalize env v a))"
  by (simp add: normalize_fst incr_mono)

text \<open>
  A slot under the decimal string of a counter value already reached, below \<open>2^53\<close>, is
  not written by \<^verbatim>\<open>normalize\<close>.
\<close>

lemma normalize_slot:
  assumes "k \<le> uid a" and "k < 2 ^ 53"
  shows "callbacks (fst (normalize env v a)) (dec k) = callbacks a (dec k)"
proof -
  from assms have "dec (incr (uid a)) \<noteq> dec k"
    using incr_fresh [of k "uid a"] dec_inj [of "incr (uid a)" k] by blast
  then show ?thesis by (simp add: normalize_fst)
qed

section \<open>Invariants of the loops over arguments and tasks\<close>

lemma normalize_args_inv:
  assumes step: "\<And>v a. P a \<Longrightarrow> P (fst (normalize env v a))"
  shows "P a \<Longrightarrow> P (fst (normalize_args env vs a))"
proof (induction vs arbitrary: a)
  case Nil
  then show ?case by (simp add: return_def)
next
  case (Cons v vs)
  show ?case
    unfolding normalize_args.simps
  proof (rule bind_fst)
    fix a' e assume "normalize env v a = (a', Inl e)"
    then have "a' = fst (normalize env v a)" by simp
    with step Cons.prems show "P a'" by simp
  next
    fix a' x assume "normalize env v a = (a', Inr x)"
    then have "a' = fst (normalize env v a)" by simp
    with step Cons.prems have p: "P a'" by simp
    show "P (fst (bind (normalize_args env vs) (\<lambda>xs. return (x # xs)) a'))"
    proof (rule bind_fst)
      fix a'' e assume "normalize_args env vs a' = (a'', Inl e)"
      then have "a'' = fst (normalize_args env vs a')" by simp
      with Cons.IH [OF p] show "P a''" by simp
    next
      fix a'' xs assume "normalize_args env vs a' = (a'', Inr xs)"
      then have "a'' = fst (normalize_args env vs a')" by simp
      with Cons.IH [OF p] show "P (fst (return (x # xs) a''))" by (simp add: return_def)
    qed
  qed
qed

lemma normalize_tasks_inv:
  assumes step: "\<And>v a. P a \<Longrightarrow> P (fst (normalize env v a))"
  shows "P a \<Longrightarrow> P (fst (normalize_tasks env ts a))"
proof (induction ts arbitrary: a)
  case Nil
  then show ?case by (simp add: return_def)
next
  case (Cons t ts)
  show ?case
    unfolding normalize_tasks.simps
  proof (rule bind_fst)
    fix a' e assume "normalize_args env (args t) a = (a', Inl e)"
    then have "a' = fst (normalize_args env (args t) a)" by simp
    with normalize_args_inv [of P env, OF step Cons.prems] show "P a'" by simp
  next
    fix a' x assume "normalize_args env (args t) a = (a', Inr x)"
    then have "a' = fst (normalize_args env (args t) a)" by simp
    with normalize_args_inv [of P env, OF step Cons.prems] have p: "P a'" by simp
    show "P (fst (bind (normalize_tasks env ts) (\<lambda>ts'. return (t\<lparr>args := x\<rparr> # ts')) a'))"
    proof (rule bind_fst)
      fix a'' e assume "normalize_tasks env ts a' = (a'', Inl e)"
      then have "a'' = fst (normalize_tasks env ts a')" by simp
      with Cons.IH [OF p] show "P a''" by simp
    next
      fix a'' xs assume "normalize_tasks env ts a' = (a'', Inr xs)"
      then have "a'' = fst (normalize_tasks env ts a')" by simp
      with Cons.IH [OF p] show "P (fst (return (t\<lparr>args := x\<rparr> # xs) a''))"
        by (simp add: return_def)
    qed
  qed
qed

lemma normalize_args_uid: "uid a \<le> uid (fst (normalize_args env vs a))"
proof -
  have "\<And>v b. uid a \<le> uid b \<Longrightarrow> uid a \<le> uid (fst (normalize env v b))"
    using normalize_uid le_trans by blast
  from normalize_args_inv [of "\<lambda>b. uid a \<le> uid b" env a vs, OF this] show ?thesis by simp
qed

lemma normalize_tasks_uid: "uid a \<le> uid (fst (normalize_tasks env ts a))"
proof -
  have "\<And>v b. uid a \<le> uid b \<Longrightarrow> uid a \<le> uid (fst (normalize env v b))"
    using normalize_uid le_trans by blast
  from normalize_tasks_inv [of "\<lambda>b. uid a \<le> uid b" env a ts, OF this] show ?thesis by simp
qed

lemma normalize_tasks_log: "log (fst (normalize_tasks env ts a)) = log a"
  using normalize_tasks_inv [of "\<lambda>b. log b = log a" env a ts] by (simp add: normalize_log)

lemma normalize_tasks_app_id: "app_id (fst (normalize_tasks env ts a)) = app_id a"
  using normalize_tasks_inv [of "\<lambda>b. app_id b = app_id a" env a ts] by (simp add: normalize_app_id)


lemma normalize_tasks_slot:
  assumes "k \<le> uid a" and "k < 2 ^ 53"
  shows "k \<le> uid (fst (normalize_tasks env ts a))
    \<and> callbacks (fst (normalize_tasks env ts a)) (dec k) = callbacks a (dec k)"
proof -
  have "\<And>v b. k \<le> uid b \<and> callbacks b (dec k) = callbacks a (dec k) \<Longrightarrow>
      k \<le> uid (fst (normalize env v b))
      \<and> callbacks (fst (normalize env v b)) (dec k) = callbacks a (dec k)"
    using normalize_uid normalize_slot assms(2) le_trans by metis
  from normalize_tasks_inv [of "\<lambda>b. k \<le> uid b \<and> callbacks b (dec k) = callbacks a (dec k)"
      env a ts, OF this] assms(1)
  show ?thesis by simp
qed

section \<open>Callback ids\<close>

text \<open>
  Claim C6. While the counter is below \<open>2^53\<close>, where a double counts exactly, registering
  a function takes the counter to a strictly greater value, returns that value in
  decimal, stores the function under it and writes no slot of a counter value reached
  before; no call of \<^verbatim>\<open>normalize\<close>, on a value, an argument list or a task list, lowers
  the counter. So of two functions registered one after the other the later gets the
  greater id, the two ids differ as strings, and the later registration leaves the slot
  of the earlier as it was.
\<close>

theorem callback_ids_increase:
  "(uid a < 2 ^ 53 \<and> normalize env (JFunction f) a = (a1, r1) \<longrightarrow>
      uid a < uid a1 \<and> r1 = Inr (JString (dec (uid a1)))
      \<and> callbacks a1 (dec (uid a1)) = Some (JFunction f)
      \<and> (\<forall>k. k \<le> uid a \<longrightarrow> dec k \<noteq> dec (uid a1) \<and> callbacks a1 (dec k) = callbacks a (dec k)))
   \<and> uid a \<le> uid (fst (normalize env v a))
   \<and> uid a \<le> uid (fst (normalize_args env vs a))
   \<and> uid a \<le> uid (fst (normalize_tasks env ts a))
   \<and> (uid a < 2 ^ 53 \<and> normalize env (JFunction f) a = (a1, r1) \<and> uid a1 \<le> uid a2
        \<and> uid a2 < 2 ^ 53 \<and> normalize env (JFunction g) a2 = (a3, r2) \<longrightarrow>
      (\<exists>i j. r1 = Inr (JString (dec i)) \<and> r2 = Inr (JString (dec j)) \<and> i < j)
      \<and> r1 \<noteq> r2
      \<and> callbacks a3 (dec (uid a1)) = callbacks a2 (dec (uid a1)))"
proof -
  have one: "uid b < uid b1 \<and> s1 = Inr (JString (dec (uid b1)))
      \<and> callbacks b1 (dec (uid b1)) = Some (JFunction h)
      \<and> (\<forall>k. k \<le> uid b \<longrightarrow> dec k \<noteq> dec (uid b1) \<and> callbacks b1 (dec k) = callbacks b (dec k))"
    if lt: "uid b < 2 ^ 53" and n: "normalize env (JFunction h) b = (b1, s1)" for b b1 s1 h
  proof -
    from n have b1: "b1 = b\<lparr>uid := incr (uid b),
        callbacks := (callbacks b)(dec (incr (uid b)) \<mapsto> JFunction h)\<rparr>"
      and s1: "s1 = Inr (JString (dec (incr (uid b))))"
      by (simp_all add: normalize_function)
    from lt have i: "incr (uid b) = uid b + 1" by (simp add: incr_def)
    have fresh: "dec k \<noteq> dec (uid b + 1)" if "k \<le> uid b" for k
      using that dec_inj [of k "uid b + 1"] by auto
    show ?thesis using b1 s1 i fresh by simp
  qed
  have two: "(\<exists>i j. r1 = Inr (JString (dec i)) \<and> r2 = Inr (JString (dec j)) \<and> i < j)
      \<and> r1 \<noteq> r2 \<and> callbacks a3 (dec (uid a1)) = callbacks a2 (dec (uid a1))"
    if h: "uid a < 2 ^ 53" "normalize env (JFunction f) a = (a1, r1)" "uid a1 \<le> uid a2"
      "uid a2 < 2 ^ 53" "normalize env (JFunction g) a2 = (a3, r2)"
  proof -
    from one [OF h(1) h(2)] have r1: "r1 = Inr (JString (dec (uid a1)))" by simp
    from one [OF h(4) h(5)] have r2: "r2 = Inr (JString (dec (uid a3)))"
      and lt: "uid a2 < uid a3"
      and old: "\<forall>k. k \<le> uid a2 \<longrightarrow> dec k \<noteq> dec (uid a3) \<and> callbacks a3 (dec k) = callbacks a2 (dec k)"
      by simp_all
    from h(3) lt have "uid a1 < uid a3" by simp
    moreover from old h(3) have "dec (uid a1) \<noteq> dec (uid a3)"
      and "callbacks a3 (dec (uid a1)) = callbacks a2 (dec (uid a1))" by simp_all
    ultimately show ?thesis using r1 r2 by blast
  qed
  have first: "uid a < 2 ^ 53 \<and> normalize env (JFunction f) a = (a1, r1) \<longrightarrow>
      uid a < uid a1 \<and> r1 = Inr (JString (dec (uid a1)))
      \<and> callbacks a1 (dec (uid a1)) = Some (JFunction f)
      \<and> (\<forall>k. k \<le> uid a \<longrightarrow> dec k \<noteq> dec (uid a1) \<and> callbacks a1 (dec k) = callbacks a (dec k))"
    using one by blast
  from first two normalize_uid [of a env v] normalize_args_uid [of a env vs]
    normalize_tasks_uid [of a env ts]
  show ?thesis by blast
qed

text \<open>Two registrations in an app just created get the ids 1 and 2.\<close>

theorem callback_ids_increase_witness:
  "uid fresh_app < 2 ^ 53
   \<and> normalize quiet_env (JFunction 5) fresh_app
       = (fresh_app\<lparr>uid := 1, callbacks := Map.empty(''1'' \<mapsto> JFunction 5)\<rparr>, Inr (JString ''1''))
   \<and> normalize quiet_env (JFunction 6)
        (fresh_app\<lparr>uid := 1, callbacks := Map.empty(''1'' \<mapsto> JFunction 5)\<rparr>)
       = (fresh_app\<lparr>uid := 2, callbacks := Map.empty(''1'' \<mapsto> JFunction 5, ''2'' \<mapsto> JFunction 6)\<rparr>,
          Inr (JString ''2''))
   \<and> Inr (JString ''1'') \<noteq> (Inr (JString ''2'') :: exn + jsval)
   \<and> (Map.empty(''1'' \<mapsto> JFunction 5, ''2'' \<mapsto> JFunction 6)) ''1'' = Some (JFunction 5)"
proof -
  let ?a1 = "fresh_app\<lparr>uid := 1, callbacks := Map.empty(''1'' \<mapsto> JFunction 5)\<rparr>"
  let ?a3 = "fresh_app\<lparr>uid := 2, callbacks := Map.empty(''1'' \<mapsto> JFunction 5, ''2'' \<mapsto> JFunction 6)\<rparr>"
  have n1: "normalize quiet_env (JFunction 5) fresh_app = (?a1, Inr (JString ''1''))"
    by (simp add: normalize_function fresh_app_def incr_def dec_small digit_def)
  have n2: "normalize quiet_env (JFunction 6) ?a1 = (?a3, Inr (JString ''2''))"
    by (simp add: normalize_function fresh_app_def incr_def dec_small digit_def)
  have lt: "uid fresh_app < 2 ^ 53" "uid ?a1 \<le> uid ?a1" "uid ?a1 < 2 ^ 53"
    by (simp_all add: fresh_app_def)
  from callback_ids_increase [of fresh_app quiet_env 5 ?a1 "Inr (JString ''1'')" JNull "[]" "[]"
      ?a1 6 ?a3 "Inr (JString ''2'')"] n1 n2 lt
  show ?thesis by (simp add: dec_small digit_def)
qed

section \<open>The flush\<close>

lemma callTasks_sent:
  assumes "normalize_tasks env ts a = (a1, Inr ts')"
  shows "callTasks env (Several ts) a
      = perform (SendTasks (app_id a) ts' ''-1'') (sendTasks env (app_id a) ts' ''-1'') a1"
proof -
  from assms have "app_id a1 = app_id a"
    using normalize_tasks_app_id [of env ts a] by simp
  with assms show ?thesis by (simp add: callTasks_def bind_def)
qed

lemma callTasks_thrown:
  assumes "normalize_tasks env ts a = (a1, Inl e)"
  shows "callTasks env (Several ts) a = (a1, Inl e)"
  using assms by (simp add: callTasks_def bind_def)

lemma callTasks_log:
  "log (fst (callTasks env (Several ts) a)) = log a
   \<or> (\<exists>ts'. log (fst (callTasks env (Several ts) a)) = log a @ [SendTasks (app_id a) ts' ''-1''])"
proof (cases "normalize_tasks env ts a")
  case (Pair a1 r)
  then have l: "log a1 = log a" using normalize_tasks_log [of env ts a] by simp
  show ?thesis
  proof (cases r)
    case (Inl e)
    with Pair l show ?thesis by (simp add: callTasks_thrown)
  next
    case (Inr ts')
    with Pair l show ?thesis by (simp add: callTasks_sent perform_log)
  qed
qed



section \<open>Dispatch to a list of candidates\<close>

lemma some_fire_step_false:
  assumes "app_fireEvent env r type e a = (a1, Inr (JBoolean False))"
  shows "some_fire env (r # rs) type e a
      = some_fire env rs type e (a1\<lparr>log := log a @ [AppFireEvent r type e]\<rparr>)"
  using assms by (simp add: bind_def perform_def)

lemma some_fire_step_stop:
  assumes "app_fireEvent env r type e a = (a1, Inr v)" and "v \<noteq> JBoolean False"
  shows "some_fire env (r # rs) type e a
      = (a1\<lparr>log := log a @ [AppFireEvent r type e]\<rparr>, Inr True)"
  using assms by (simp add: bind_def perform_def return_def)

lemma some_fire_step_thrown:
  assumes "app_fireEvent env r type e a = (a1, Inl ex)"
  shows "some_fire env (r # rs) type e a
      = (a1\<lparr>log := log a @ [AppFireEvent r type e]\<rparr>, Inl ex)"
  using assms by (simp add: bind_def perform_def)

declare some_fire.simps(2) [simp del]

text \<open>The calls made are the dispatches to a prefix of the candidates, in order.\<close>

lemma some_fire_log:
  "\<exists>n\<le>length rs. log (fst (some_fire env rs type e a))
      = log a @ map (\<lambda>x. AppFireEvent x type e) (take n rs)"
proof (induction rs arbitrary: a)
  case Nil
  show ?case by (simp add: return_def)
next
  case (Cons r rs)
  obtain a1 res where f: "app_fireEvent env r type e a = (a1, res)" by (cases "app_fireEvent env r type e a")
  let ?b = "a1\<lparr>log := log a @ [AppFireEvent r type e]\<rparr>"
  have one: "log a @ [AppFireEvent r type e]
      = log a @ map (\<lambda>x. AppFireEvent x type e) (take (Suc 0) (r # rs))" by simp
  show ?case
  proof (cases res)
    case (Inl ex)
    with f have "log (fst (some_fire env (r # rs) type e a)) = log a @ [AppFireEvent r type e]"
      by (simp add: some_fire_step_thrown)
    with one show ?thesis by (intro exI [of _ "Suc 0"]) simp
  next
    case (Inr v)
    show ?thesis
    proof (cases "v = JBoolean False")
      case True
      with f Inr have s: "some_fire env (r # rs) type e a = some_fire env rs type e ?b"
        by (simp add: some_fire_step_false)
      from Cons.IH [of ?b] obtain n where n: "n \<le> length rs"
        "log (fst (some_fire env rs type e ?b))
          = log ?b @ map (\<lambda>x. AppFireEvent x type e) (take n rs)" by blast
      from n s show ?thesis by (intro exI [of _ "Suc n"]) simp
    next
      case False
      with f Inr have "log (fst (some_fire env (r # rs) type e a)) = log a @ [AppFireEvent r type e]"
        by (simp add: some_fire_step_stop)
      with one show ?thesis by (intro exI [of _ "Suc 0"]) simp
    qed
  qed
qed

text \<open>
  If every candidate before \<open>r\<close> answers \<^verbatim>\<open>false\<close> and \<open>r\<close> answers something else, the
  candidates up to \<open>r\<close> are dispatched to, in order, and none after \<open>r\<close>.
\<close>

lemma some_fire_stops:
  assumes "\<forall>x\<in>set pre. \<forall>b. snd (app_fireEvent env x type e b) = Inr (JBoolean False)"
    and "\<forall>b. \<exists>v. snd (app_fireEvent env r type e b) = Inr v \<and> v \<noteq> JBoolean False"
  shows "snd (some_fire env (pre @ r # post) type e a) = Inr True
    \<and> log (fst (some_fire env (pre @ r # post) type e a))
        = log a @ map (\<lambda>x. AppFireEvent x type e) (pre @ [r])"
  using assms(1)
proof (induction pre arbitrary: a)
  case Nil
  from assms(2) obtain a1 v where "app_fireEvent env r type e a = (a1, Inr v)" "v \<noteq> JBoolean False"
    by (metis prod.collapse)
  then show ?case by (simp add: some_fire_step_stop)
next
  case (Cons p pre)
  then have "snd (app_fireEvent env p type e a) = Inr (JBoolean False)" by simp
  then obtain a1 where f: "app_fireEvent env p type e a = (a1, Inr (JBoolean False))"
    by (metis prod.collapse)
  let ?b = "a1\<lparr>log := log a @ [AppFireEvent p type e]\<rparr>"
  from f have s: "some_fire env ((p # pre) @ r # post) type e a
      = some_fire env (pre @ r # post) type e ?b"
    by (simp add: some_fire_step_false)
  from Cons.IH [of ?b] Cons.prems show ?case unfolding s by simp
qed

lemma some_fire_returns:
  assumes "\<forall>x b. \<exists>v. snd (app_fireEvent env x type e b) = Inr v"
  shows "\<exists>b. snd (some_fire env rs type e a) = Inr b"
proof (induction rs arbitrary: a)
  case Nil
  show ?case by (auto simp: return_def)
next
  case (Cons r rs)
  from assms obtain a1 v where f: "app_fireEvent env r type e a = (a1, Inr v)"
    by (metis prod.collapse)
  show ?case
  proof (cases "v = JBoolean False")
    case True
    with f Cons.IH show ?thesis by (simp add: some_fire_step_false)
  next
    case False
    with f show ?thesis by (auto simp: some_fire_step_stop)
  qed
qed

lemma fireEvent_array:
  "fireEvent env (JArray refs) type e dc a
     = (fst (some_fire env refs type e a),
        case snd (some_fire env refs type e a) of Inl ex \<Rightarrow> Inl ex | Inr b \<Rightarrow> Inr JUndefined)"
  by (cases "some_fire env refs type e a")
    (simp add: fireEvent_def bind_def return_def split: sum.splits)


lemma fireEvent_unresolved:
  assumes "\<forall>refs. rf \<noteq> JArray refs" and "\<not> truthy (doc_getRef env a rf)"
  shows "fireEvent env rf type e dc a = (a, Inr (JError ''invalid element reference'' rf))"
  using assms by (cases rf) (simp_all add: fireEvent_def return_def)

lemma fireEvent_single:
  assumes "\<forall>refs. rf \<noteq> JArray refs" and "truthy (doc_getRef env a rf)"
  shows "fireEvent env rf type e dc a
    = bind (perform (DocFireEvent (doc_getRef env a rf) type e dc)
              (doc_fireEvent env (doc_getRef env a rf) type e dc))
        (\<lambda>result. bind (updateActions env)
           (\<lambda>_. bind (updateFinish env)
              (\<lambda>_. return result))) a"
  using assms by (cases rf) (simp_all add: fireEvent_def Let_def)

lemma updateActions_log:
  "\<exists>sends. log (fst (updateActions env a)) = log a @ DifferFlush # sends"
proof (cases "differ_flush env a")
  case (Pair b r)
  show ?thesis
  proof (cases r)
    case (Inl ex)
    with Pair show ?thesis by (simp add: updateActions_def bind_def perform_def)
  next
    case (Inr y)
    show ?thesis
    proof (cases "updates b = None \<or> updates b = Some []")
      case True
      with Pair Inr show ?thesis
        by (auto simp: updateActions_def bind_def perform_def drain_def return_def)
    next
      case False
      then obtain us where us: "updates b = Some us" "us \<noteq> []" by auto
      let ?b = "b\<lparr>log := log a @ [DifferFlush], updates := Some []\<rparr>"
      from Pair Inr us have u: "updateActions env a = callTasks env (Several us) ?b"
        by (simp add: updateActions_def bind_def perform_def drain_def)
      from callTasks_log [of env us ?b] u show ?thesis by auto
    qed
  qed
qed

text \<open>
  Claim C7. Given an array of candidates, \<^verbatim>\<open>fireEvent\<close> dispatches to them in order and
  stops at the first whose answer is not \<^verbatim>\<open>false\<close>: if every candidate before \<open>r\<close> answers
  \<^verbatim>\<open>false\<close> and \<open>r\<close> answers something else, exactly the candidates up to \<open>r\<close> are dispatched
  to, in order. For the candidates A, B, C, where A answers \<^verbatim>\<open>false\<close> and then B answers
  \<^verbatim>\<open>true\<close>, the calls made are the dispatch to A and then the dispatch to B, and none to C.
\<close>

theorem fireEvent_stops_at_first:
  "((\<forall>x\<in>set pre. \<forall>b. snd (app_fireEvent env x type e b) = Inr (JBoolean False))
      \<and> (\<forall>b. \<exists>v. snd (app_fireEvent env r type e b) = Inr v \<and> v \<noteq> JBoolean False) \<longrightarrow>
      log (fst (fireEvent env (JArray (pre @ r # post)) type e dc a))
        = log a @ map (\<lambda>x. AppFireEvent x type e) (pre @ [r]))
   \<and> (app_fireEvent env A type e a = (a1, Inr (JBoolean False))
       \<and> app_fireEvent env B type e (a1\<lparr>log := log a @ [AppFireEvent A type e]\<rparr>)
           = (a2, Inr (JBoolean True)) \<longrightarrow>
      fireEvent env (JArray [A, B, C]) type e dc a
        = (a2\<lparr>log := log a @ [AppFireEvent A type e, AppFireEvent B type e]\<rparr>, Inr JUndefined))"
proof -
  have gen: "log (fst (fireEvent env (JArray (pre @ r # post)) type e dc a))
        = log a @ map (\<lambda>x. AppFireEvent x type e) (pre @ [r])"
    if "\<forall>x\<in>set pre. \<forall>b. snd (app_fireEvent env x type e b) = Inr (JBoolean False)"
      "\<forall>b. \<exists>v. snd (app_fireEvent env r type e b) = Inr v \<and> v \<noteq> JBoolean False"
    using some_fire_stops [OF that, of post a] by (simp add: fireEvent_array)
  have abc: "fireEvent env (JArray [A, B, C]) type e dc a
        = (a2\<lparr>log := log a @ [AppFireEvent A type e, AppFireEvent B type e]\<rparr>, Inr JUndefined)"
    if h: "app_fireEvent env A type e a = (a1, Inr (JBoolean False))"
      "app_fireEvent env B type e (a1\<lparr>log := log a @ [AppFireEvent A type e]\<rparr>)
           = (a2, Inr (JBoolean True))"
  proof -
    from some_fire_step_false [OF h(1), of "[B, C]"]
    have 1: "some_fire env [A, B, C] type e a
        = some_fire env [B, C] type e (a1\<lparr>log := log a @ [AppFireEvent A type e]\<rparr>)" .
    from some_fire_step_stop [OF h(2), of "[C]"]
    have 2: "some_fire env [B, C] type e (a1\<lparr>log := log a @ [AppFireEvent A type e]\<rparr>)
        = (a2\<lparr>log := log a @ [AppFireEvent A type e, AppFireEvent B type e]\<rparr>, Inr True)"
      by simp
    from 1 2 show ?thesis by (simp add: fireEvent_array)
  qed
  from gen abc show ?thesis by blast
qed

text \<open>The candidates \<^verbatim>\<open>'A'\<close>, \<^verbatim>\<open>'B'\<close>, \<^verbatim>\<open>'C'\<close> with the collaborators \<open>abc_env\<close>.\<close>

theorem fireEvent_stops_at_first_witness:
  "app_fireEvent abc_env (JString ''A'') (JString ''click'') JNull fresh_app
      = (fresh_app, Inr (JBoolean False))
   \<and> app_fireEvent abc_env (JString ''B'') (JString ''click'') JNull
        (fresh_app\<lparr>log := [AppFireEvent (JString ''A'') (JString ''click'') JNull]\<rparr>)
      = (fresh_app\<lparr>log := [AppFireEvent (JString ''A'') (JString ''click'') JNull]\<rparr>,
         Inr (JBoolean True))
   \<and> fireEvent abc_env (JArray [JString ''A'', JString ''B'', JString ''C''])
        (JString ''click'') JNull JUndefined fresh_app
      = (fresh_app\<lparr>log := [AppFireEvent (JString ''A'') (JString ''click'') JNull,
                            AppFireEvent (JString ''B'') (JString ''click'') JNull]\<rparr>,
         Inr JUndefined)"
proof -
  let ?A = "JString ''A''" and ?B = "JString ''B''" and ?C = "JString ''C''"
  let ?t = "JString ''click''"
  let ?a1 = "fresh_app\<lparr>log := [AppFireEvent ?A ?t JNull]\<rparr>"
  have l: "log fresh_app = []" by (simp add: fresh_app_def)
  have hA: "app_fireEvent abc_env ?A ?t JNull fresh_app = (fresh_app, Inr (JBoolean False))"
    by (simp add: abc_env_def)
  have hB: "app_fireEvent abc_env ?B ?t JNull ?a1 = (?a1, Inr (JBoolean True))"
    by (simp add: abc_env_def)
  have g1: "\<forall>x\<in>set [?A]. \<forall>b. snd (app_fireEvent abc_env x ?t JNull b) = Inr (JBoolean False)"
    by (simp add: abc_env_def)
  have g2: "\<forall>b. \<exists>v. snd (app_fireEvent abc_env ?B ?t JNull b) = Inr v \<and> v \<noteq> JBoolean False"
    by (simp add: abc_env_def)
  from fireEvent_stops_at_first [of "[?A]" abc_env ?t JNull ?B "[?C]" JUndefined fresh_app
      ?A fresh_app ?B ?a1 ?C] g1 g2 hA hB l
  show ?thesis by simp
qed

lemma some_fire_all_false:
  assumes "\<forall>x\<in>set rs. \<forall>b. snd (app_fireEvent env x type e b) = Inr (JBoolean False)"
  shows "snd (some_fire env rs type e a) = Inr False
    \<and> log (fst (some_fire env rs type e a)) = log a @ map (\<lambda>x. AppFireEvent x type e) rs"
  using assms
proof (induction rs arbitrary: a)
  case Nil
  show ?case by (simp add: return_def)
next
  case (Cons p rs)
  then have "snd (app_fireEvent env p type e a) = Inr (JBoolean False)" by simp
  then obtain a1 where f: "app_fireEvent env p type e a = (a1, Inr (JBoolean False))"
    by (metis prod.collapse)
  let ?b = "a1\<lparr>log := log a @ [AppFireEvent p type e]\<rparr>"
  from f have s: "some_fire env (p # rs) type e a = some_fire env rs type e ?b"
    by (simp add: some_fire_step_false)
  from Cons.IH [of ?b] Cons.prems show ?case unfolding s by simp
qed

text \<open>
  Claim C10. Given an array of candidates, \<^verbatim>\<open>fireEvent\<close> hands them one by one, in order,
  to the app's own \<^verbatim>\<open>fireEvent\<close>: for no candidate it returns \<^verbatim>\<open>undefined\<close>; when the
  dispatch to the first candidate answers something other than \<^verbatim>\<open>false\<close> it stops there
  and returns \<^verbatim>\<open>undefined\<close>, not the answer; when it answers \<^verbatim>\<open>false\<close> it goes on with the
  rest; when it throws, the exception goes on. So it returns \<^verbatim>\<open>undefined\<close> whenever it
  returns, the candidates up to the one that stops the dispatch are each dispatched to
  (all of them when every answer is \<^verbatim>\<open>false\<close>), and the calls it makes are these
  dispatches and nothing else: no flush and no update-finished signal. Given a single
  reference that resolves to an element, it fires the event on the element, flushes,
  signals update finished and returns the handler's result; given one that does not
  resolve, it returns an error value and makes no call.
\<close>

theorem fireEvent_array_returns_undefined:
  "(snd (fireEvent env (JArray refs) type e dc a) = Inr JUndefined
      \<or> (\<exists>ex. snd (fireEvent env (JArray refs) type e dc a) = Inl ex))
   \<and> ((\<forall>x b. \<exists>v. snd (app_fireEvent env x type e b) = Inr v) \<longrightarrow>
        snd (fireEvent env (JArray refs) type e dc a) = Inr JUndefined)
   \<and> (\<exists>n\<le>length refs. log (fst (fireEvent env (JArray refs) type e dc a))
        = log a @ map (\<lambda>x. AppFireEvent x type e) (take n refs))
   \<and> ((\<forall>rs. rf \<noteq> JArray rs) \<and> truthy (doc_getRef env a rf)
        \<and> doc_fireEvent env (doc_getRef env a rf) type e dc a = (a1, Inr result)
        \<and> updateActions env (a1\<lparr>log := log a @ [DocFireEvent (doc_getRef env a rf) type e dc]\<rparr>)
            = (a2, Inr y)
        \<and> updates a2 = Some q \<and> listener_updateFinish env a2 = (a3, Inr z) \<longrightarrow>
      fireEvent env rf type e dc a = (a3\<lparr>log := log a2 @ [UpdateFinish]\<rparr>, Inr result)
      \<and> (\<exists>sends. log a2
            = log a @ DocFireEvent (doc_getRef env a rf) type e dc # DifferFlush # sends))
   \<and> ((\<forall>rs. rf \<noteq> JArray rs) \<and> \<not> truthy (doc_getRef env a rf) \<longrightarrow>
        fireEvent env rf type e dc a = (a, Inr (JError ''invalid element reference'' rf)))
   \<and> fireEvent env (JArray []) type e dc a = (a, Inr JUndefined)
   \<and> (app_fireEvent env c type e a = (b1, Inr v) \<and> v \<noteq> JBoolean False \<longrightarrow>
        fireEvent env (JArray (c # cs)) type e dc a
          = (b1\<lparr>log := log a @ [AppFireEvent c type e]\<rparr>, Inr JUndefined))
   \<and> (app_fireEvent env c type e a = (b1, Inr (JBoolean False)) \<longrightarrow>
        fireEvent env (JArray (c # cs)) type e dc a
          = fireEvent env (JArray cs) type e dc (b1\<lparr>log := log a @ [AppFireEvent c type e]\<rparr>))
   \<and> (app_fireEvent env c type e a = (b1, Inl err) \<longrightarrow>
        fireEvent env (JArray (c # cs)) type e dc a
          = (b1\<lparr>log := log a @ [AppFireEvent c type e]\<rparr>, Inl err))
   \<and> ((\<forall>x\<in>set pre. \<forall>b. snd (app_fireEvent env x type e b) = Inr (JBoolean False))
        \<and> (\<forall>b. snd (app_fireEvent env s type e b) = Inr w) \<and> w \<noteq> JBoolean False \<longrightarrow>
        snd (fireEvent env (JArray (pre @ s # post)) type e dc a) = Inr JUndefined
        \<and> log (fst (fireEvent env (JArray (pre @ s # post)) type e dc a))
            = log a @ map (\<lambda>x. AppFireEvent x type e) (pre @ [s]))
   \<and> ((\<forall>x\<in>set refs. \<forall>b. snd (app_fireEvent env x type e b) = Inr (JBoolean False)) \<longrightarrow>
        snd (fireEvent env (JArray refs) type e dc a) = Inr JUndefined
        \<and> log (fst (fireEvent env (JArray refs) type e dc a))
            = log a @ map (\<lambda>x. AppFireEvent x type e) refs)"
proof -
  have 1: "snd (fireEvent env (JArray refs) type e dc a) = Inr JUndefined
      \<or> (\<exists>ex. snd (fireEvent env (JArray refs) type e dc a) = Inl ex)"
    by (simp add: fireEvent_array split: sum.splits)
  have 2: "snd (fireEvent env (JArray refs) type e dc a) = Inr JUndefined"
    if "\<forall>x b. \<exists>v. snd (app_fireEvent env x type e b) = Inr v"
    using some_fire_returns [OF that, of refs a] by (auto simp: fireEvent_array)
  have 3: "\<exists>n\<le>length refs. log (fst (fireEvent env (JArray refs) type e dc a))
        = log a @ map (\<lambda>x. AppFireEvent x type e) (take n refs)"
    using some_fire_log [of refs env type e a] by (simp add: fireEvent_array)
  have 4: "fireEvent env rf type e dc a = (a3\<lparr>log := log a2 @ [UpdateFinish]\<rparr>, Inr result)
      \<and> (\<exists>sends. log a2
            = log a @ DocFireEvent (doc_getRef env a rf) type e dc # DifferFlush # sends)"
    if h: "\<forall>rs. rf \<noteq> JArray rs" "truthy (doc_getRef env a rf)"
      "doc_fireEvent env (doc_getRef env a rf) type e dc a = (a1, Inr result)"
      "updateActions env (a1\<lparr>log := log a @ [DocFireEvent (doc_getRef env a rf) type e dc]\<rparr>)
            = (a2, Inr y)"
      "updates a2 = Some q" "listener_updateFinish env a2 = (a3, Inr z)"
  proof -
    let ?b = "a1\<lparr>log := log a @ [DocFireEvent (doc_getRef env a rf) type e dc]\<rparr>"
    from h have "fireEvent env rf type e dc a = (a3\<lparr>log := log a2 @ [UpdateFinish]\<rparr>, Inr result)"
      by (simp add: fireEvent_single bind_def perform_def return_def updateFinish_def)
    moreover from updateActions_log [of env ?b] h(4)
    have "\<exists>sends. log a2
            = log a @ DocFireEvent (doc_getRef env a rf) type e dc # DifferFlush # sends"
      by simp
    ultimately show ?thesis by blast
  qed
  have 6: "fireEvent env (JArray []) type e dc a = (a, Inr JUndefined)"
    by (simp add: fireEvent_array return_def)
  have 7: "fireEvent env (JArray (c # cs)) type e dc a
          = (b1\<lparr>log := log a @ [AppFireEvent c type e]\<rparr>, Inr JUndefined)"
    if "app_fireEvent env c type e a = (b1, Inr v)" "v \<noteq> JBoolean False"
    using some_fire_step_stop [OF that, of cs] by (simp add: fireEvent_array)
  have 8: "fireEvent env (JArray (c # cs)) type e dc a
          = fireEvent env (JArray cs) type e dc (b1\<lparr>log := log a @ [AppFireEvent c type e]\<rparr>)"
    if "app_fireEvent env c type e a = (b1, Inr (JBoolean False))"
    using some_fire_step_false [OF that, of cs] by (simp add: fireEvent_array)
  have 9: "fireEvent env (JArray (c # cs)) type e dc a
          = (b1\<lparr>log := log a @ [AppFireEvent c type e]\<rparr>, Inl err)"
    if "app_fireEvent env c type e a = (b1, Inl err)"
    using some_fire_step_thrown [OF that, of cs] by (simp add: fireEvent_array)
  have 10: "snd (fireEvent env (JArray (pre @ s # post)) type e dc a) = Inr JUndefined
        \<and> log (fst (fireEvent env (JArray (pre @ s # post)) type e dc a))
            = log a @ map (\<lambda>x. AppFireEvent x type e) (pre @ [s])"
    if p: "\<forall>x\<in>set pre. \<forall>b. snd (app_fireEvent env x type e b) = Inr (JBoolean False)"
      and w: "\<forall>b. snd (app_fireEvent env s type e b) = Inr w" "w \<noteq> JBoolean False"
  proof -
    from w have "\<forall>b. \<exists>v. snd (app_fireEvent env s type e b) = Inr v \<and> v \<noteq> JBoolean False"
      by simp
    from some_fire_stops [OF p this, of post a] show ?thesis by (simp add: fireEvent_array)
  qed
  have 11: "snd (fireEvent env (JArray refs) type e dc a) = Inr JUndefined
        \<and> log (fst (fireEvent env (JArray refs) type e dc a))
            = log a @ map (\<lambda>x. AppFireEvent x type e) refs"
    if "\<forall>x\<in>set refs. \<forall>b. snd (app_fireEvent env x type e b) = Inr (JBoolean False)"
    using some_fire_all_false [OF that, of a] by (simp add: fireEvent_array)
  from 1 2 3 4 fireEvent_unresolved [of rf env a type e dc] 6 7 8 9 10 11
  show ?thesis by blast
qed

text \<open>
  An array whose second candidate answers \<^verbatim>\<open>true\<close>, an array whose candidates all answer
  \<^verbatim>\<open>false\<close>, a dispatch that throws, a reference that resolves and one that does not.
\<close>

theorem fireEvent_array_returns_undefined_witness:
  "(\<forall>x b. \<exists>v. snd (app_fireEvent abc_env x (JString ''click'') JNull b) = Inr v)
   \<and> snd (fireEvent abc_env (JArray [JString ''A'', JString ''B'', JString ''C''])
        (JString ''click'') JNull JUndefined fresh_app) = Inr JUndefined
   \<and> truthy (doc_getRef el_env fresh_app (JString ''7''))
   \<and> fireEvent el_env (JString ''7'') (JString ''click'') JNull JUndefined fresh_app
       = (fresh_app\<lparr>log := [DocFireEvent (JElement ''7'') (JString ''click'') JNull JUndefined,
                             DifferFlush, UpdateFinish]\<rparr>, Inr (JString ''handled''))
   \<and> \<not> truthy (doc_getRef el_env fresh_app (JString ''8''))
   \<and> fireEvent el_env (JString ''8'') (JString ''click'') JNull JUndefined fresh_app
       = (fresh_app, Inr (JError ''invalid element reference'' (JString ''8'')))
   \<and> log (fst (fireEvent abc_env (JArray [JString ''A'', JString ''B'', JString ''C''])
        (JString ''click'') JNull JUndefined fresh_app))
       = [AppFireEvent (JString ''A'') (JString ''click'') JNull,
          AppFireEvent (JString ''B'') (JString ''click'') JNull]
   \<and> fireEvent abc_env (JArray [JString ''B'', JString ''C'']) (JString ''click'') JNull
        JUndefined fresh_app
       = (fresh_app\<lparr>log := [AppFireEvent (JString ''B'') (JString ''click'') JNull]\<rparr>,
          Inr JUndefined)
   \<and> fireEvent abc_env (JArray [JString ''A'']) (JString ''click'') JNull JUndefined fresh_app
       = (fresh_app\<lparr>log := [AppFireEvent (JString ''A'') (JString ''click'') JNull]\<rparr>,
          Inr JUndefined)
   \<and> log (fst (fireEvent abc_env (JArray [JString ''A'', JString ''C''])
        (JString ''click'') JNull JUndefined fresh_app))
       = [AppFireEvent (JString ''A'') (JString ''click'') JNull,
          AppFireEvent (JString ''C'') (JString ''click'') JNull]
   \<and> fireEvent throw_env (JArray [JString ''A'', JString ''B'']) (JString ''click'') JNull
        JUndefined fresh_app
       = (fresh_app\<lparr>log := [AppFireEvent (JString ''A'') (JString ''click'') JNull]\<rparr>,
          Inl TypeError)"
proof -
  let ?t = "JString ''click''"
  let ?A = "JString ''A''" and ?B = "JString ''B''" and ?C = "JString ''C''"
  let ?el = "JElement ''7''"
  let ?b = "fresh_app\<lparr>log := [DocFireEvent ?el ?t JNull JUndefined]\<rparr>"
  let ?a2 = "fresh_app\<lparr>log := [DocFireEvent ?el ?t JNull JUndefined, DifferFlush]\<rparr>"
  let ?aA = "fresh_app\<lparr>log := [AppFireEvent ?A ?t JNull]\<rparr>"
  have l: "log fresh_app = []" by (simp add: fresh_app_def)
  have never: "\<forall>x b. \<exists>v. snd (app_fireEvent abc_env x ?t JNull b) = Inr v"
    by (simp add: abc_env_def)
  have r7: "doc_getRef el_env fresh_app (JString ''7'') = ?el"
    and r8: "doc_getRef el_env fresh_app (JString ''8'') = JUndefined"
    by (simp_all add: el_env_def)
  have na: "\<forall>rs. JString ''7'' \<noteq> JArray rs" "\<forall>rs. JString ''8'' \<noteq> JArray rs" by simp_all
  have f: "doc_fireEvent el_env ?el ?t JNull JUndefined fresh_app
      = (fresh_app, Inr (JString ''handled''))"
    by (simp add: el_env_def)
  have u: "updateActions el_env ?b = (?a2, Inr JUndefined)"
    by (simp add: updateActions_def bind_def perform_def drain_def return_def el_env_def
        quiet_env_def quiet_def fresh_app_def)
  have s: "listener_updateFinish el_env ?a2 = (?a2, Inr JUndefined)"
    by (simp add: el_env_def quiet_env_def quiet_def)
  have q: "updates ?a2 = Some []" by (simp add: fresh_app_def)
  have hA: "app_fireEvent abc_env ?A ?t JNull fresh_app = (fresh_app, Inr (JBoolean False))"
    and hB: "app_fireEvent abc_env ?B ?t JNull fresh_app = (fresh_app, Inr (JBoolean True))"
    and hT: "app_fireEvent throw_env ?A ?t JNull fresh_app = (fresh_app, Inl TypeError)"
    by (simp_all add: abc_env_def throw_env_def)
  have gA: "\<forall>x\<in>set [?A]. \<forall>b. snd (app_fireEvent abc_env x ?t JNull b) = Inr (JBoolean False)"
    and gB: "\<forall>b. snd (app_fireEvent abc_env ?B ?t JNull b) = Inr (JBoolean True)"
    and gAC: "\<forall>x\<in>set [?A, ?C]. \<forall>b. snd (app_fireEvent abc_env x ?t JNull b) = Inr (JBoolean False)"
    by (simp_all add: abc_env_def)
  note T = fireEvent_array_returns_undefined
  from T [where env = abc_env and refs = "[?A, ?B, ?C]" and type = ?t and e = JNull
      and dc = JUndefined and a = fresh_app] never
  have A: "snd (fireEvent abc_env (JArray [?A, ?B, ?C]) ?t JNull JUndefined fresh_app)
      = Inr JUndefined" by blast
  from T [where env = el_env and type = ?t and e = JNull and dc = JUndefined and a = fresh_app
      and rf = "JString ''7''" and ?a1.0 = fresh_app and result = "JString ''handled''"
      and ?a2.0 = ?a2 and y = JUndefined and q = "[]" and ?a3.0 = ?a2 and z = JUndefined]
    na r7 f u s l q
  have B: "fireEvent el_env (JString ''7'') ?t JNull JUndefined fresh_app
      = (?a2\<lparr>log := log ?a2 @ [UpdateFinish]\<rparr>, Inr (JString ''handled''))" by simp
  from T [where env = el_env and type = ?t and e = JNull and dc = JUndefined and a = fresh_app
      and rf = "JString ''8''"] na r8
  have C: "fireEvent el_env (JString ''8'') ?t JNull JUndefined fresh_app
       = (fresh_app, Inr (JError ''invalid element reference'' (JString ''8'')))" by simp
  from T [where env = abc_env and type = ?t and e = JNull and dc = JUndefined and a = fresh_app
      and pre = "[?A]" and s = ?B and w = "JBoolean True" and post = "[?C]"] gA gB l
  have D: "log (fst (fireEvent abc_env (JArray [?A, ?B, ?C]) ?t JNull JUndefined fresh_app))
      = [AppFireEvent ?A ?t JNull, AppFireEvent ?B ?t JNull]" by simp
  from T [where env = abc_env and type = ?t and e = JNull and dc = JUndefined and a = fresh_app
      and c = ?B and cs = "[?C]" and ?b1.0 = fresh_app and v = "JBoolean True"] hB l
  have E: "fireEvent abc_env (JArray [?B, ?C]) ?t JNull JUndefined fresh_app
      = (fresh_app\<lparr>log := [AppFireEvent ?B ?t JNull]\<rparr>, Inr JUndefined)" by simp
  from T [where env = abc_env and type = ?t and e = JNull and dc = JUndefined and a = fresh_app
      and c = ?A and cs = "[]" and ?b1.0 = fresh_app] hA l
  have F1: "fireEvent abc_env (JArray [?A]) ?t JNull JUndefined fresh_app
      = fireEvent abc_env (JArray []) ?t JNull JUndefined ?aA" by simp
  from T [where env = abc_env and type = ?t and e = JNull and dc = JUndefined and a = ?aA]
  have F2: "fireEvent abc_env (JArray []) ?t JNull JUndefined ?aA = (?aA, Inr JUndefined)"
    by blast
  from T [where env = abc_env and refs = "[?A, ?C]" and type = ?t and e = JNull
      and dc = JUndefined and a = fresh_app] gAC l
  have G: "log (fst (fireEvent abc_env (JArray [?A, ?C]) ?t JNull JUndefined fresh_app))
      = [AppFireEvent ?A ?t JNull, AppFireEvent ?C ?t JNull]" by simp
  from T [where env = throw_env and type = ?t and e = JNull and dc = JUndefined and a = fresh_app
      and c = ?A and cs = "[?B]" and ?b1.0 = fresh_app and err = TypeError] hT l
  have H: "fireEvent throw_env (JArray [?A, ?B]) ?t JNull JUndefined fresh_app
      = (fresh_app\<lparr>log := [AppFireEvent ?A ?t JNull]\<rparr>, Inl TypeError)" by simp
  from never A B C D E F1 F2 G H r7 r8 show ?thesis by simp
qed

section \<open>Callbacks\<close>

text \<open>
  An invariant of the app that the collaborators of the flush keep, and that does not
  speak of the queue or the log, is kept by \<^verbatim>\<open>updateActions\<close>.
\<close>

lemma perform_fst: "fst (perform ev f a) = (fst (f a))\<lparr>log := log a @ [ev]\<rparr>"
  by (simp add: perform_def split: prod.splits)

lemma callTasks_inv:
  assumes norm: "\<And>v b. P b \<Longrightarrow> P (fst (normalize env v b))"
    and send: "\<And>i ts c b. P b \<Longrightarrow> P (fst (sendTasks env i ts c b))"
    and lg: "\<And>b l. P b \<Longrightarrow> P (b\<lparr>log := l\<rparr>)"
  shows "P a \<Longrightarrow> P (fst (callTasks env (Several ts) a))"
proof -
  assume p: "P a"
  obtain a1 r where n: "normalize_tasks env ts a = (a1, r)" by (cases "normalize_tasks env ts a")
  from normalize_tasks_inv [of P env a ts, OF norm p] n have p1: "P a1" by simp
  show ?thesis
  proof (cases r)
    case (Inl e)
    with n p1 show ?thesis by (simp add: callTasks_thrown)
  next
    case (Inr ts')
    with n have "callTasks env (Several ts) a
        = perform (SendTasks (app_id a) ts' ''-1'') (sendTasks env (app_id a) ts' ''-1'') a1"
      by (simp add: callTasks_sent)
    moreover have "P (fst (perform (SendTasks (app_id a) ts' ''-1'')
        (sendTasks env (app_id a) ts' ''-1'') a1))"
      using send [OF p1, of "app_id a" ts' "''-1''"] lg by (simp add: perform_fst)
    ultimately show ?thesis by simp
  qed
qed

lemma updateActions_inv:
  assumes norm: "\<And>v b. P b \<Longrightarrow> P (fst (normalize env v b))"
    and flush: "\<And>b. P b \<Longrightarrow> P (fst (differ_flush env b))"
    and send: "\<And>i ts c b. P b \<Longrightarrow> P (fst (sendTasks env i ts c b))"
    and lg: "\<And>b l. P b \<Longrightarrow> P (b\<lparr>log := l\<rparr>)"
    and upd: "\<And>b us. P b \<Longrightarrow> P (b\<lparr>updates := us\<rparr>)"
  shows "P a \<Longrightarrow> P (fst (updateActions env a))"
proof -
  assume p: "P a"
  obtain b r where f: "differ_flush env a = (b, r)" by (cases "differ_flush env a")
  from flush [OF p] f have pb: "P b" by simp
  let ?b = "b\<lparr>log := log a @ [DifferFlush]\<rparr>"
  from lg [OF pb] have pb': "P ?b" .
  show ?thesis
  proof (cases r)
    case (Inl e)
    with f pb' show ?thesis by (simp add: updateActions_def bind_def perform_def)
  next
    case (Inr y)
    show ?thesis
    proof (cases "updates b = None \<or> updates b = Some []")
      case True
      with f Inr pb' show ?thesis
        by (auto simp: updateActions_def bind_def perform_def drain_def return_def)
    next
      case False
      then obtain us where us: "updates b = Some us" "us \<noteq> []" by auto
      let ?c = "b\<lparr>log := log a @ [DifferFlush], updates := Some []\<rparr>"
      from f Inr us have u: "updateActions env a = callTasks env (Several us) ?c"
        by (simp add: updateActions_def bind_def perform_def drain_def)
      from upd [OF pb', of "Some []"] have "P ?c" by simp
      from callTasks_inv [of P env ?c us, OF norm send lg this] u show ?thesis by simp
    qed
  qed
qed

lemma flush_and_signal_hold:
  assumes k: "k < 2 ^ 53" and keeps: "keeps env k x" and h: "holds_slot k x a"
  shows "holds_slot k x
    (fst (bind (updateActions env)
       (\<lambda>_. bind (updateFinish env) (\<lambda>_. return r)) a))"
proof -
  have norm: "\<And>v b. holds_slot k x b \<Longrightarrow> holds_slot k x (fst (normalize env v b))"
    using normalize_uid normalize_slot k le_trans unfolding holds_slot_def by metis
  have flush: "\<And>b. holds_slot k x b \<Longrightarrow> holds_slot k x (fst (differ_flush env b))"
    and send: "\<And>i ts c b. holds_slot k x b \<Longrightarrow> holds_slot k x (fst (sendTasks env i ts c b))"
    and fin: "\<And>b. holds_slot k x b \<Longrightarrow> holds_slot k x (fst (listener_updateFinish env b))"
    using keeps by (simp_all add: keeps_def)
  have lg: "\<And>b l. holds_slot k x b \<Longrightarrow> holds_slot k x (b\<lparr>log := l\<rparr>)"
    and upd: "\<And>b us. holds_slot k x b \<Longrightarrow> holds_slot k x (b\<lparr>updates := us\<rparr>)"
    by (simp_all add: holds_slot_def)
  have u: "holds_slot k x (fst (updateActions env a))"
    using updateActions_inv [of "holds_slot k x" env a, OF norm flush send lg upd h] .
  obtain a1 r1 where ua: "updateActions env a = (a1, r1)" by (cases "updateActions env a")
  with u have h1: "holds_slot k x a1" by simp
  have h2: "holds_slot k x (fst (updateFinish env a1))"
    using fin [OF h1] lg h1 by (simp add: updateFinish_def perform_fst split: option.splits)
  obtain a2 r2 where pa: "updateFinish env a1 = (a2, r2)"
    by (cases "updateFinish env a1")
  with h2 have h2': "holds_slot k x a2" by simp
  show ?thesis
    using ua pa h1 h2' by (cases r1; cases r2) (simp_all add: bind_def return_def)
qed

lemma callback_no_function:
  assumes "\<forall>f. slot a cid \<noteq> JFunction f"
  shows "callback env cid data keep a = (a, Inr (JError ''invalid callback id'' (JString cid)))"
  using assms by (cases "slot a cid") (simp_all add: callback_def return_def)

lemma callback_function:
  assumes "slot a cid = JFunction f"
  shows "callback env cid data keep a
    = bind (perform (Invoke f data) (call_function env f data))
        (\<lambda>_ a1. bind (updateActions env)
           (\<lambda>_. bind (updateFinish env) (\<lambda>_. return JUndefined))
           (clear_unless_kept cid keep a1)) a"
  using assms by (simp add: callback_def)

lemma callback_thrown:
  assumes "slot a cid = JFunction f" and "call_function env f data a = (a1, Inl ex)"
  shows "callback env cid data keep a = (a1\<lparr>log := log a @ [Invoke f data]\<rparr>, Inl ex)"
proof -
  from assms(2) have "perform (Invoke f data) (call_function env f data) a
      = (a1\<lparr>log := log a @ [Invoke f data]\<rparr>, Inl ex)"
    by (simp add: perform_def)
  from bind_Inl [of "perform (Invoke f data) (call_function env f data)" a, OF this] assms(1) show ?thesis by (simp add: callback_function)
qed

lemma callback_returned:
  assumes "slot a cid = JFunction f" and "call_function env f data a = (a1, Inr v)"
  shows "callback env cid data keep a
    = bind (updateActions env)
        (\<lambda>_. bind (updateFinish env) (\<lambda>_. return JUndefined))
        (clear_unless_kept cid keep (a1\<lparr>log := log a @ [Invoke f data]\<rparr>))"
proof -
  from assms(2) have "perform (Invoke f data) (call_function env f data) a
      = (a1\<lparr>log := log a @ [Invoke f data]\<rparr>, Inr v)"
    by (simp add: perform_def)
  from bind_Inr [of "perform (Invoke f data) (call_function env f data)" a, OF this] assms(1) show ?thesis by (simp add: callback_function)
qed

text \<open>
  Claim C5, as the code has it. \<^verbatim>\<open>callback\<close> returns an error value, and calls nothing, when
  the slot holds no function. Otherwise it calls the stored function with the data; if
  that call throws, the exception goes on and the slot is left. If it returns, the slot
  is cleared when \<open>ifKeepAlive\<close> is \<^verbatim>\<open>undefined\<close> or \<^verbatim>\<open>false\<close> and left for any other value
  (\<^verbatim>\<open>true\<close>, but \<^verbatim>\<open>null\<close> as well). For an id \<open>dec k\<close> that the counter has reached, with
  collaborators that leave the slot and the counter alone, the slot is still cleared
  after the flush and the signal, so a second \<^verbatim>\<open>callback\<close> with the same id returns the
  error value; and a slot that is kept still holds the function.
\<close>

theorem callback_single_shot:
  "((\<forall>f. slot a cid \<noteq> JFunction f) \<longrightarrow>
      callback env cid data keep a = (a, Inr (JError ''invalid callback id'' (JString cid))))
   \<and> (slot a cid = JFunction f \<and> call_function env f data a = (a1, Inl ex) \<longrightarrow>
      callback env cid data keep a = (a1\<lparr>log := log a @ [Invoke f data]\<rparr>, Inl ex))
   \<and> (slot a cid = JFunction f \<and> call_function env f data a = (a1, Inr v) \<longrightarrow>
      callback env cid data keep a
        = bind (updateActions env)
            (\<lambda>_. bind (updateFinish env) (\<lambda>_. return JUndefined))
            (if keep = JUndefined \<or> keep = JBoolean False
             then a1\<lparr>log := log a @ [Invoke f data], callbacks := (callbacks a1)(cid \<mapsto> JUndefined)\<rparr>
             else a1\<lparr>log := log a @ [Invoke f data]\<rparr>))
   \<and> (slot a cid = JFunction f \<and> call_function env f data a = (a1, Inr v)
        \<and> (keep = JUndefined \<or> keep = JBoolean False)
        \<and> cid = dec k \<and> k \<le> uid a1 \<and> k < 2 ^ 53 \<and> keeps env k JUndefined \<longrightarrow>
      slot (fst (callback env cid data keep a)) cid = JUndefined
      \<and> callback env cid data' keep' (fst (callback env cid data keep a))
          = (fst (callback env cid data keep a),
             Inr (JError ''invalid callback id'' (JString cid))))
   \<and> (slot a cid = JFunction f \<and> call_function env f data a = (a1, Inr v)
        \<and> keep \<noteq> JUndefined \<and> keep \<noteq> JBoolean False
        \<and> cid = dec k \<and> k \<le> uid a1 \<and> k < 2 ^ 53 \<and> callbacks a1 cid = Some (JFunction f)
        \<and> keeps env k (JFunction f) \<longrightarrow>
      slot (fst (callback env cid data keep a)) cid = JFunction f)"
proof -
  let ?rest = "bind (updateActions env)
      (\<lambda>_. bind (updateFinish env) (\<lambda>_. return JUndefined))"
  have 3: "callback env cid data keep a
        = ?rest (if keep = JUndefined \<or> keep = JBoolean False
             then a1\<lparr>log := log a @ [Invoke f data], callbacks := (callbacks a1)(cid \<mapsto> JUndefined)\<rparr>
             else a1\<lparr>log := log a @ [Invoke f data]\<rparr>)"
    if "slot a cid = JFunction f" "call_function env f data a = (a1, Inr v)"
    using that by (simp add: callback_returned clear_unless_kept_def)
  have 4: "slot (fst (callback env cid data keep a)) cid = JUndefined
      \<and> callback env cid data' keep' (fst (callback env cid data keep a))
          = (fst (callback env cid data keep a),
             Inr (JError ''invalid callback id'' (JString cid)))"
    if h: "slot a cid = JFunction f" "call_function env f data a = (a1, Inr v)"
      "keep = JUndefined \<or> keep = JBoolean False"
      "cid = dec k" "k \<le> uid a1" "k < 2 ^ 53" "keeps env k JUndefined"
  proof -
    let ?b = "a1\<lparr>log := log a @ [Invoke f data], callbacks := (callbacks a1)(cid \<mapsto> JUndefined)\<rparr>"
    from h have c: "callback env cid data keep a = ?rest ?b" using 3 by simp
    from h have "holds_slot k JUndefined ?b" by (simp add: holds_slot_def)
    from flush_and_signal_hold [OF h(6) h(7) this, of JUndefined] c
    have "holds_slot k JUndefined (fst (callback env cid data keep a))" by simp
    with h(4) have s: "slot (fst (callback env cid data keep a)) cid = JUndefined"
      by (simp add: holds_slot_def slot_def)
    then have "\<forall>g. slot (fst (callback env cid data keep a)) cid \<noteq> JFunction g" by simp
    from callback_no_function [OF this] s show ?thesis by simp
  qed
  have 5: "slot (fst (callback env cid data keep a)) cid = JFunction f"
    if h: "slot a cid = JFunction f" "call_function env f data a = (a1, Inr v)"
      "keep \<noteq> JUndefined" "keep \<noteq> JBoolean False"
      "cid = dec k" "k \<le> uid a1" "k < 2 ^ 53" "callbacks a1 cid = Some (JFunction f)"
      "keeps env k (JFunction f)"
  proof -
    let ?b = "a1\<lparr>log := log a @ [Invoke f data]\<rparr>"
    from h have c: "callback env cid data keep a = ?rest ?b" using 3 by simp
    from h have "holds_slot k (JFunction f) ?b" by (simp add: holds_slot_def)
    from flush_and_signal_hold [OF h(7) h(9) this, of JUndefined] c
    have "holds_slot k (JFunction f) (fst (callback env cid data keep a))" by simp
    with h(5) show ?thesis by (simp add: holds_slot_def slot_def)
  qed
  from callback_no_function [of a cid env data keep] callback_thrown [of a cid f env data a1 ex keep]
    3 4 5
  show ?thesis by blast
qed

text \<open>
  The app with one registered function: a callback without \<open>ifKeepAlive\<close> clears the
  slot and a second one gets the error value, a callback with \<^verbatim>\<open>true\<close> keeps the slot,
  and an id that was never allocated gets the error value.
\<close>

theorem callback_single_shot_witness:
  "slot registered_app ''1'' = JFunction 5
   \<and> call_function quiet_env 5 (JString ''d'') registered_app = (registered_app, Inr JUndefined)
   \<and> ''1'' = dec 1 \<and> keeps quiet_env 1 JUndefined \<and> keeps quiet_env 1 (JFunction 5)
   \<and> slot (fst (callback quiet_env ''1'' (JString ''d'') JUndefined registered_app)) ''1''
       = JUndefined
   \<and> callback quiet_env ''1'' (JString ''d'') JUndefined
        (fst (callback quiet_env ''1'' (JString ''d'') JUndefined registered_app))
       = (fst (callback quiet_env ''1'' (JString ''d'') JUndefined registered_app),
          Inr (JError ''invalid callback id'' (JString ''1'')))
   \<and> slot (fst (callback quiet_env ''1'' (JString ''d'') (JBoolean True) registered_app)) ''1''
       = JFunction 5
   \<and> callback quiet_env ''2'' (JString ''d'') JUndefined registered_app
       = (registered_app, Inr (JError ''invalid callback id'' (JString ''2'')))"
proof -
  let ?d = "JString ''d''"
  have s1: "slot registered_app ''1'' = JFunction 5" "\<forall>f. slot registered_app ''2'' \<noteq> JFunction f"
    "callbacks registered_app ''1'' = Some (JFunction 5)"
    by (simp_all add: slot_def registered_app_def fresh_app_def)
  have c: "call_function quiet_env 5 ?d registered_app = (registered_app, Inr JUndefined)"
    by (simp add: quiet_env_def quiet_def)
  have d1: "''1'' = dec 1" by (simp add: dec_small digit_def)
  have k: "(1::nat) \<le> uid registered_app" "(1::nat) < 2 ^ 53"
    by (simp_all add: registered_app_def)
  have ks: "keeps quiet_env 1 JUndefined" "keeps quiet_env 1 (JFunction 5)"
    by (simp_all add: keeps_def quiet_env_def quiet_def)
  from callback_single_shot [of registered_app "''1''" quiet_env ?d JUndefined 5 registered_app
      TypeError JUndefined 1 ?d JUndefined] s1 c d1 k ks
  have A: "slot (fst (callback quiet_env ''1'' ?d JUndefined registered_app)) ''1'' = JUndefined
    \<and> callback quiet_env ''1'' ?d JUndefined
        (fst (callback quiet_env ''1'' ?d JUndefined registered_app))
       = (fst (callback quiet_env ''1'' ?d JUndefined registered_app),
          Inr (JError ''invalid callback id'' (JString ''1'')))"
    by blast
  have t: "JBoolean True \<noteq> JUndefined" "JBoolean True \<noteq> JBoolean False" by simp_all
  from callback_single_shot [of registered_app "''1''" quiet_env ?d "JBoolean True" 5
      registered_app TypeError JUndefined 1 ?d JUndefined] s1 c d1 k ks t
  have B: "slot (fst (callback quiet_env ''1'' ?d (JBoolean True) registered_app)) ''1''
      = JFunction 5"
    by blast
  from callback_single_shot [of registered_app "''2''" quiet_env ?d JUndefined 5 registered_app
      TypeError JUndefined 1 ?d JUndefined] s1(2)
  have C: "callback quiet_env ''2'' ?d JUndefined registered_app
       = (registered_app, Inr (JError ''invalid callback id'' (JString ''2'')))"
    by blast
  from s1 c d1 ks A B C show ?thesis by simp
qed

text \<open>
  Against C5 as stated: with \<open>ifKeepAlive\<close> \<^verbatim>\<open>null\<close>, which is not \<^verbatim>\<open>true\<close>, the slot is not
  cleared, and a second \<^verbatim>\<open>callback\<close> with the same id calls the function again instead of
  returning an error.
\<close>

theorem callback_null_keeps_counterexample:
  "JNull \<noteq> JBoolean True
   \<and> callback quiet_env ''1'' (JString ''d'') JNull registered_app
       = (registered_app\<lparr>log := [Invoke 5 (JString ''d''), DifferFlush, UpdateFinish]\<rparr>,
          Inr JUndefined)
   \<and> slot (registered_app\<lparr>log := [Invoke 5 (JString ''d''), DifferFlush, UpdateFinish]\<rparr>) ''1''
       = JFunction 5
   \<and> callback quiet_env ''1'' (JString ''d'') JNull
        (registered_app\<lparr>log := [Invoke 5 (JString ''d''), DifferFlush, UpdateFinish]\<rparr>)
       = (registered_app\<lparr>log := [Invoke 5 (JString ''d''), DifferFlush, UpdateFinish,
                                  Invoke 5 (JString ''d''), DifferFlush, UpdateFinish]\<rparr>,
          Inr JUndefined)"
  by (simp add: callback_def slot_def registered_app_def fresh_app_def bind_def perform_def
      quiet_env_def quiet_def updateActions_def drain_def return_def clear_unless_kept_def
      updateFinish_def)

section \<open>The match of \<^verbatim>\<open>versionRegExp\<close>\<close>

lemma atom_ok_Chr: "atom_ok (Chr c) = (\<lambda>x. x = c)"
  by (rule ext) simp

lemma atom_ok_NotChr: "atom_ok (NotChr c) = (\<lambda>x. x \<noteq> c)"
  by (rule ext) simp

text \<open>
  What follows a greedy star decides alone where the star ends, when it cannot start
  with a character of the star.
\<close>

lemma star_concat:
  assumes "\<And>m c cs. atom_ok a c \<Longrightarrow> f (m, c # cs) = []"
  shows "concat (map f (star_run a s)) = f (takeWhile (atom_ok a) s, dropWhile (atom_ok a) s)"
  using assms
proof (induction s arbitrary: f)
  case Nil
  show ?case by simp
next
  case (Cons c cs)
  show ?case
  proof (cases "atom_ok a c")
    case True
    let ?g = "\<lambda>p. f (c # fst p, snd p)"
    have g: "\<And>m d ds. atom_ok a d \<Longrightarrow> ?g (m, d # ds) = []" using Cons.prems by simp
    have e: "map f (map (\<lambda>(m, r). (c # m, r)) (star_run a cs)) = map ?g (star_run a cs)"
      unfolding map_map comp_def split_beta by (rule refl)
    have "concat (map f (star_run a (c # cs)))
        = concat (map f (map (\<lambda>(m, r). (c # m, r)) (star_run a cs))) @ f ([], c # cs)"
      using True by simp
    also have "\<dots> = concat (map ?g (star_run a cs)) @ f ([], c # cs)"
      by (simp only: e)
    also have "\<dots> = ?g (takeWhile (atom_ok a) cs, dropWhile (atom_ok a) cs)"
      using Cons.IH [of ?g, OF g] Cons.prems [OF True, of "[]" cs] by simp
    finally show ?thesis using True by simp
  next
    case False
    then show ?thesis by simp
  qed
qed

lemma run_Seq_Atom:
  "run (Seq (Atom a) r2) s =
     (case s of
        [] \<Rightarrow> []
      | c # cs \<Rightarrow> if atom_ok a c then map (\<lambda>q. (c # fst q, snd q)) (run r2 cs) else [])"
  by (cases s) (simp_all add: case_prod_unfold)

lemma run_Seq_Star:
  assumes "\<And>c cs. atom_ok a c \<Longrightarrow> run r2 (c # cs) = []"
  shows "run (Seq (Star a) r2) s
    = map (\<lambda>q. (takeWhile (atom_ok a) s @ fst q, snd q)) (run r2 (dropWhile (atom_ok a) s))"
proof -
  let ?f = "\<lambda>p. map (\<lambda>q. (fst p @ fst q, snd q)) (run r2 (snd p))"
  have "run (Seq (Star a) r2) s = concat (map ?f (star_run a s))"
    by (simp add: case_prod_unfold)
  also have "\<dots> = ?f (takeWhile (atom_ok a) s, dropWhile (atom_ok a) s)"
    by (rule star_concat [where a = a and f = ?f and s = s]) (simp add: assms)
  finally show ?thesis by simp
qed

lemma run_Atom:
  "run (Atom a) s = (case s of [] \<Rightarrow> [] | c # cs \<Rightarrow> if atom_ok a c then [([c], cs)] else [])"
  by simp

lemma run_line_end:
  "run (Seq (Opt (Atom (Chr CR))) (Atom (Chr LF))) s \<noteq> [] \<longleftrightarrow> ends_line s"
  by (cases s) (auto simp: CR_def LF_def split: list.splits)

lemma run_post: "run version_post s \<noteq> [] \<longleftrightarrow> ends_line (dropWhile (\<lambda>x. x = CHR '' '') s)"
proof -
  let ?tail = "Seq (Opt (Atom (Chr CR))) (Atom (Chr LF))"
  have z: "run ?tail (x # xs) = []" if "atom_ok (Chr (CHR '' '')) x" for x xs
    using that by (simp add: CR_def LF_def)
  have "run version_post s
      = map (\<lambda>q. (takeWhile (atom_ok (Chr (CHR '' ''))) s @ fst q, snd q))
          (run ?tail (dropWhile (atom_ok (Chr (CHR '' ''))) s))"
    unfolding version_post_def by (rule run_Seq_Star) (rule z)
  then have "run version_post s \<noteq> [] \<longleftrightarrow> run ?tail (dropWhile (atom_ok (Chr (CHR '' ''))) s) \<noteq> []"
    by (simp only: map_is_Nil_conv)
  then show ?thesis by (simp only: run_line_end atom_ok_Chr)
qed

text \<open>The group: an opening brace, and then everything up to the next closing brace.\<close>

lemma run_group:
  "run version_group s =
     (case s of
        [] \<Rightarrow> []
      | c # r \<Rightarrow>
          if c = CHR ''{'' then
            (case dropWhile (\<lambda>x. x \<noteq> CHR ''}'') r of
               [] \<Rightarrow> []
             | d # r' \<Rightarrow> [(CHR ''{'' # takeWhile (\<lambda>x. x \<noteq> CHR ''}'') r @ ''}'', r')])
          else [])"
proof (cases s)
  case Nil
  then show ?thesis by (simp only: version_group_def run_Seq_Atom list.case)
next
  case (Cons c r)
  let ?inner = "Seq (Star (NotChr (CHR ''}''))) (Atom (Chr (CHR ''}'')))"
  let ?dw = "dropWhile (\<lambda>x. x \<noteq> CHR ''}'') r"
  let ?tw = "takeWhile (\<lambda>x. x \<noteq> CHR ''}'') r"
  have z: "run (Atom (Chr (CHR ''}''))) (x # xs) = []" if "atom_ok (NotChr (CHR ''}'')) x" for x xs
    using that by simp
  have "run ?inner r = map (\<lambda>q. (takeWhile (atom_ok (NotChr (CHR ''}''))) r @ fst q, snd q))
      (run (Atom (Chr (CHR ''}''))) (dropWhile (atom_ok (NotChr (CHR ''}''))) r))"
    by (rule run_Seq_Star) (rule z)
  then have inner: "run ?inner r
      = map (\<lambda>q. (?tw @ fst q, snd q)) (run (Atom (Chr (CHR ''}''))) ?dw)"
    by (simp only: atom_ok_NotChr)
  have last: "run (Atom (Chr (CHR ''}''))) ?dw
      = (case ?dw of [] \<Rightarrow> [] | d # r' \<Rightarrow> [(''}'', r')])"
  proof (cases ?dw)
    case Nil
    show ?thesis unfolding Nil by simp
  next
    case (Cons d r')
    with hd_dropWhile [of "\<lambda>x. x \<noteq> CHR ''}''" r] have d: "d = CHR ''}''" by fastforce
    show ?thesis unfolding Cons d by simp
  qed
  have top: "run version_group (c # r)
      = (if c = CHR ''{'' then map (\<lambda>q. (c # fst q, snd q)) (run ?inner r) else [])"
    by (simp only: version_group_def run_Seq_Atom list.case atom_ok.simps)
  have res: "run version_group (c # r)
      = (if c = CHR ''{''
         then map (\<lambda>q. (c # fst q, snd q))
                (map (\<lambda>q. (?tw @ fst q, snd q)) (case ?dw of [] \<Rightarrow> [] | d # r' \<Rightarrow> [(''}'', r')]))
         else [])"
    by (simp only: top inner last)
  show ?thesis unfolding Cons res by (simp split: list.split del: run.simps dropWhile_eq_Nil_conv)
qed

lemma first_group_text:
  "(case group_texts s of [] \<Rightarrow> None | g # gs \<Rightarrow> Some g) = brace_text s"
proof -
  have c: "(case map (\<lambda>q. g) xs of [] \<Rightarrow> None | y # ys \<Rightarrow> Some y)
      = (if xs \<noteq> [] then Some g else None)" for g :: string and xs :: "(string \<times> string) list"
    by (cases xs) simp_all
  show ?thesis
    unfolding group_texts_def run_group brace_text_def
    by (simp add: c run_post split: list.split del: run.simps dropWhile_eq_Nil_conv)
qed

lemma group_texts_space: "group_texts (CHR '' '' # cs) = []"
  unfolding group_texts_def run_group by simp

lemma run_pre:
  "run version_pre code =
     (case code of
        [] \<Rightarrow> []
      | c1 # r1 \<Rightarrow>
          if c1 = CHR ''/'' then
            (case r1 of
               [] \<Rightarrow> []
             | c2 # r \<Rightarrow>
                 if c2 = CHR ''/''
                 then map (\<lambda>q. (c1 # c2 # fst q, snd q)) (star_run (Chr (CHR '' '')) r)
                 else [])
          else [])"
  unfolding version_pre_def run_Seq_Atom
  by (simp split: list.split del: run.simps(4))

lemma exec_unfold:
  "versionRegExp_exec code =
     (case concat (map (\<lambda>p. group_texts (snd p)) (run version_pre code)) of
        [] \<Rightarrow> None
      | g # gs \<Rightarrow> Some g)"
  unfolding versionRegExp_exec_def group_texts_def by (simp only: case_prod_unfold)

text \<open>The backtracking match and the match computed directly agree.\<close>

lemma versionRegExp_exec_sniff: "versionRegExp_exec code = sniff_header code"
proof -
  have pre: "concat (map (\<lambda>p. group_texts (snd p)) (map (\<lambda>q. (c1 # c2 # fst q, snd q))
      (star_run (Chr (CHR '' '')) r))) = group_texts (dropWhile (\<lambda>x. x = CHR '' '') r)"
    for c1 c2 r
  proof -
    let ?f = "\<lambda>p. group_texts (snd p)"
    have "concat (map ?f (map (\<lambda>q. (c1 # c2 # fst q, snd q)) (star_run (Chr (CHR '' '')) r)))
        = concat (map ?f (star_run (Chr (CHR '' '')) r))"
      unfolding map_map comp_def by simp
    also have "\<dots> = ?f (takeWhile (atom_ok (Chr (CHR '' ''))) r,
        dropWhile (atom_ok (Chr (CHR '' ''))) r)"
      by (rule star_concat [where a = "Chr (CHR '' '')" and f = ?f and s = r])
        (simp add: group_texts_space)
    finally show ?thesis by (simp only: atom_ok_Chr snd_conv)
  qed
  show ?thesis
  proof (cases code)
    case Nil
    then show ?thesis unfolding exec_unfold run_pre sniff_header_def by simp
  next
    case c1: (Cons c1 r1)
    show ?thesis
    proof (cases r1)
      case Nil
      with c1 show ?thesis unfolding exec_unfold run_pre sniff_header_def by simp
    next
      case (Cons c2 r)
      show ?thesis
      proof (cases "c1 = CHR ''/'' \<and> c2 = CHR ''/''")
        case False
        with c1 Cons show ?thesis unfolding exec_unfold run_pre sniff_header_def by auto
      next
        case True
        then have "versionRegExp_exec code
            = (case group_texts (dropWhile (\<lambda>x. x = CHR '' '') r) of
                 [] \<Rightarrow> None | g # gs \<Rightarrow> Some g)"
          unfolding exec_unfold run_pre c1 Cons by (simp only: list.case if_True pre simp_thms)
        also have "\<dots> = brace_text (dropWhile (\<lambda>x. x = CHR '' '') r)"
          by (rule first_group_text)
        also have "\<dots> = sniff_header code"
          using True unfolding sniff_header_def c1 Cons by simp
        finally show ?thesis .
      qed
    qed
  qed
qed

section \<open>\<^verbatim>\<open>checkVersion\<close>\<close>

lemma dropWhile_spaces: "dropWhile (\<lambda>x. x = CHR '' '') (replicate i (CHR '' '') @ s)
    = dropWhile (\<lambda>x. x = CHR '' '') s"
  by (induction i) simp_all

text \<open>A text of the shape the expression describes is matched, with its brace text.\<close>

lemma sniff_header_shape:
  assumes "CHR ''}'' \<notin> set body" and "nl = [LF] \<or> nl = [CR, LF]"
  shows "sniff_header (''//'' @ replicate i (CHR '' '') @ ''{'' @ body @ ''}''
      @ replicate j (CHR '' '') @ nl @ rest) = Some (''{'' @ body @ ''}'')"
proof -
  have p: "\<And>x. x \<in> set body \<Longrightarrow> x \<noteq> CHR ''}''" using assms(1) by auto
  have b1: "dropWhile (\<lambda>x. x \<noteq> CHR ''}'') (body @ ''}'' @ replicate j (CHR '' '') @ nl @ rest)
      = ''}'' @ replicate j (CHR '' '') @ nl @ rest"
    using dropWhile_append2 [of body "\<lambda>x. x \<noteq> CHR ''}''", OF p] by simp
  have b2: "takeWhile (\<lambda>x. x \<noteq> CHR ''}'') (body @ ''}'' @ replicate j (CHR '' '') @ nl @ rest)
      = body"
    using takeWhile_append2 [of body "\<lambda>x. x \<noteq> CHR ''}''", OF p] by simp
  have e: "ends_line (dropWhile (\<lambda>x. x = CHR '' '') (replicate j (CHR '' '') @ nl @ rest))"
    using assms(2) by (auto simp: dropWhile_spaces LF_def CR_def)
  have "brace_text (''{'' @ body @ ''}'' @ replicate j (CHR '' '') @ nl @ rest)
      = Some (''{'' @ body @ ''}'')"
    using b1 b2 e by (simp add: brace_text_def del: dropWhile_eq_Nil_conv dropWhile_append3)
  then show ?thesis
    using dropWhile_spaces [of i "''{'' @ body @ ''}'' @ replicate j (CHR '' '') @ nl @ rest"]
    by (simp add: sniff_header_def)
qed

lemma sniff_header_slashes: "take 2 code \<noteq> ''//'' \<Longrightarrow> sniff_header code = None"
  by (cases code; cases "tl code") (auto simp: sniff_header_def)

lemma ends_line_LF: "ends_line s \<Longrightarrow> LF \<in> set s"
  by (cases s) (auto split: list.splits)

lemma sniff_header_needs_line: "LF \<notin> set code \<Longrightarrow> sniff_header code = None"
proof -
  assume n: "LF \<notin> set code"
  have sub: "set (dropWhile P (xs :: string)) \<subseteq> set xs" for P xs
    by (meson set_dropWhileD subsetI)
  have bt: "brace_text s = None" if "LF \<notin> set s" for s
  proof (cases s)
    case Nil
    then show ?thesis by (simp add: brace_text_def)
  next
    case (Cons c r)
    show ?thesis
    proof (cases "dropWhile (\<lambda>x. x \<noteq> CHR ''}'') r")
      case Nil
      with Cons show ?thesis by (simp add: brace_text_def del: dropWhile_eq_Nil_conv)
    next
      case d: (Cons d r')
      have "set r' \<subseteq> set r" using sub [of "\<lambda>x. x \<noteq> CHR ''}''" r] d by auto
      with that Cons sub [of "\<lambda>x. x = CHR '' ''" r']
      have "LF \<notin> set (dropWhile (\<lambda>x. x = CHR '' '') r')" by auto
      then have "\<not> ends_line (dropWhile (\<lambda>x. x = CHR '' '') r')" using ends_line_LF by blast
      with Cons d show ?thesis by (simp add: brace_text_def del: dropWhile_eq_Nil_conv)
    qed
  qed
  show ?thesis
  proof (cases code)
    case Nil
    then show ?thesis by (simp add: sniff_header_def)
  next
    case c1: (Cons c1 r1)
    show ?thesis
    proof (cases r1)
      case Nil
      with c1 show ?thesis by (simp add: sniff_header_def)
    next
      case (Cons c2 r)
      with n c1 sub [of "\<lambda>x. x = CHR '' ''" r]
      have "LF \<notin> set (dropWhile (\<lambda>x. x = CHR '' '') r)" by auto
      from bt [OF this] c1 Cons show ?thesis by (simp add: sniff_header_def)
    qed
  qed
qed

lemma takeWhile_spaces:
  "takeWhile (\<lambda>x. x = CHR '' '') s
     = replicate (length (takeWhile (\<lambda>x. x = CHR '' '') s)) (CHR '' '')"
  by (induction s) simp_all

lemma ends_line_shape:
  "ends_line s \<Longrightarrow> \<exists>nl rest. s = nl @ rest \<and> (nl = [LF] \<or> nl = [CR, LF])"
proof (cases s)
  case Nil
  assume "ends_line s"
  with Nil show ?thesis by simp
next
  case (Cons c cs)
  assume e: "ends_line s"
  show ?thesis
  proof (cases "c = LF")
    case True
    with Cons have "s = [LF] @ cs" by simp
    then show ?thesis by blast
  next
    case False
    with e Cons obtain ds where "c = CR" "cs = LF # ds" by (auto split: list.splits)
    with Cons have "s = [CR, LF] @ ds" by simp
    then show ?thesis by blast
  qed
qed

text \<open>Only a text of the shape the expression describes is matched.\<close>

lemma sniff_header_only_shape:
  assumes "sniff_header code = Some g"
  shows "\<exists>i body j nl rest.
      code = ''//'' @ replicate i (CHR '' '') @ ''{'' @ body @ ''}''
        @ replicate j (CHR '' '') @ nl @ rest
      \<and> CHR ''}'' \<notin> set body \<and> (nl = [LF] \<or> nl = [CR, LF]) \<and> g = ''{'' @ body @ ''}''"
proof -
  let ?sp = "\<lambda>x. x = CHR '' ''" and ?nb = "\<lambda>x. x \<noteq> CHR ''}''"
  from assms obtain r where code: "code = ''//'' @ r"
    and b: "brace_text (dropWhile ?sp r) = Some g"
    by (cases code; cases "tl code") (auto simp: sniff_header_def split: if_splits)
  from b obtain r2 where r1: "dropWhile ?sp r = ''{'' @ r2"
    by (cases "dropWhile ?sp r") (auto simp: brace_text_def split: if_splits)
  from b r1 obtain d r3 where dw: "dropWhile ?nb r2 = d # r3"
    and e: "ends_line (dropWhile ?sp r3)" and g: "g = ''{'' @ takeWhile ?nb r2 @ ''}''"
    by (cases "dropWhile ?nb r2")
      (auto simp: brace_text_def split: if_splits simp del: dropWhile_eq_Nil_conv)
  from dw hd_dropWhile [of ?nb r2] have d: "d = CHR ''}''" by fastforce
  from e obtain nl rest where nl: "dropWhile ?sp r3 = nl @ rest" "nl = [LF] \<or> nl = [CR, LF]"
    using ends_line_shape by blast
  have "r = takeWhile ?sp r @ dropWhile ?sp r" by simp
  also have "\<dots> = replicate (length (takeWhile ?sp r)) (CHR '' '') @ ''{'' @ r2"
    using takeWhile_spaces [of r] r1 by simp
  finally have r: "r = replicate (length (takeWhile ?sp r)) (CHR '' '') @ ''{'' @ r2" .
  have "r2 = takeWhile ?nb r2 @ dropWhile ?nb r2" by simp
  also have "\<dots> = takeWhile ?nb r2 @ ''}'' @ r3" using dw d by simp
  finally have r2: "r2 = takeWhile ?nb r2 @ ''}'' @ r3" .
  have "r3 = takeWhile ?sp r3 @ dropWhile ?sp r3" by simp
  also have "\<dots> = replicate (length (takeWhile ?sp r3)) (CHR '' '') @ nl @ rest"
    using takeWhile_spaces [of r3] nl(1) by simp
  finally have r3: "r3 = replicate (length (takeWhile ?sp r3)) (CHR '' '') @ nl @ rest" .
  have nb: "CHR ''}'' \<notin> set (takeWhile ?nb r2)"
    using set_takeWhileD [of "CHR ''}''" ?nb r2] by blast
  have "code = ''//'' @ replicate (length (takeWhile ?sp r)) (CHR '' '') @ ''{''
      @ takeWhile ?nb r2 @ ''}'' @ replicate (length (takeWhile ?sp r3)) (CHR '' '') @ nl @ rest"
    using code r r2 r3 by (metis append_assoc)
  with nb nl(2) g show ?thesis by blast
qed

lemma checkVersion_sniff:
  "checkVersion h code =
     (case sniff_header code of
        Some g \<Rightarrow> (case JSON_parse h g of Inr info \<Rightarrow> Some info | Inl e \<Rightarrow> None)
      | None \<Rightarrow> None)"
  by (simp add: checkVersion_def versionRegExp_exec_sniff)

text \<open>
  Claim C4, as the code has it. If the bundle begins with two slashes, spaces, a brace
  text on one line that holds no closing brace before its last character, spaces and a
  line break (LF or CRLF), \<^verbatim>\<open>checkVersion\<close> returns what \<^verbatim>\<open>JSON.parse\<close> makes of the brace
  text, and nothing if \<^verbatim>\<open>JSON.parse\<close> throws; so the header
  \<^verbatim>\<open>// {"framework":"Foo","version":"1.0"}\<close> followed by a line feed and any code yields the
  parsed object, with framework \<^verbatim>\<open>Foo\<close> and version \<^verbatim>\<open>1.0\<close>. A bundle that does not begin
  with two slashes, or holds no line feed, yields nothing, and so does every bundle that
  does not begin with two slashes, spaces, a brace text without an inner closing brace,
  spaces and a line break. The result is always either nothing or the object parsed
  from the matched text: there is no error.
\<close>

theorem checkVersion_header:
  "(CHR ''}'' \<notin> set body \<and> LF \<notin> set body \<and> (nl = [LF] \<or> nl = [CR, LF]) \<longrightarrow>
      checkVersion h (''//'' @ replicate i (CHR '' '') @ ''{'' @ body @ ''}''
          @ replicate j (CHR '' '') @ nl @ rest)
        = (case JSON_parse h (''{'' @ body @ ''}'') of Inr info \<Rightarrow> Some info | Inl e \<Rightarrow> None))
   \<and> checkVersion h (''// '' @ foo_text @ [LF] @ rest)
       = (case JSON_parse h foo_text of Inr info \<Rightarrow> Some info | Inl e \<Rightarrow> None)
   \<and> (JSON_parse h foo_text = Inr foo_info \<longrightarrow>
        checkVersion h (''// '' @ foo_text @ [LF] @ rest) = Some foo_info
        \<and> get_prop foo_info ''framework'' = JString ''Foo''
        \<and> get_prop foo_info ''version'' = JString ''1.0'')
   \<and> (take 2 code \<noteq> ''//'' \<longrightarrow> checkVersion h code = None)
   \<and> (LF \<notin> set code \<longrightarrow> checkVersion h code = None)
   \<and> (versionRegExp_exec code = Some g \<and> JSON_parse h g = Inl e \<longrightarrow> checkVersion h code = None)
   \<and> (checkVersion h code = None
       \<or> (\<exists>g info. versionRegExp_exec code = Some g \<and> JSON_parse h g = Inr info
             \<and> checkVersion h code = Some info))
   \<and> (checkVersion h code = Some found \<longrightarrow>
        (\<exists>i body j nl rest.
           code = ''//'' @ replicate i (CHR '' '') @ ''{'' @ body @ ''}''
             @ replicate j (CHR '' '') @ nl @ rest
           \<and> CHR ''}'' \<notin> set body \<and> (nl = [LF] \<or> nl = [CR, LF])
           \<and> JSON_parse h (''{'' @ body @ ''}'') = Inr found))"
proof -
  have 1: "checkVersion h (''//'' @ replicate i (CHR '' '') @ ''{'' @ body @ ''}''
          @ replicate j (CHR '' '') @ nl @ rest)
        = (case JSON_parse h (''{'' @ body @ ''}'') of Inr info \<Rightarrow> Some info | Inl e \<Rightarrow> None)"
    if "CHR ''}'' \<notin> set body" "nl = [LF] \<or> nl = [CR, LF]"
    using sniff_header_shape [OF that, of i j rest] by (simp only: checkVersion_sniff option.case)
  have f: "sniff_header (''// '' @ foo_text @ [LF] @ rest) = Some foo_text"
    using sniff_header_shape [of "''\"framework\":\"Foo\",\"version\":\"1.0\"''" "[LF]" 1 0 rest]
    by (simp add: foo_text_def)
  have 2: "checkVersion h (''// '' @ foo_text @ [LF] @ rest)
       = (case JSON_parse h foo_text of Inr info \<Rightarrow> Some info | Inl e \<Rightarrow> None)"
    by (simp only: checkVersion_sniff f option.case)
  have 3: "get_prop foo_info ''framework'' = JString ''Foo''"
    "get_prop foo_info ''version'' = JString ''1.0''"
    by (simp_all add: get_prop_def foo_info_def)
  have 4: "checkVersion h code = None" if "take 2 code \<noteq> ''//''"
    using sniff_header_slashes [OF that] by (simp add: checkVersion_sniff)
  have 5: "checkVersion h code = None" if "LF \<notin> set code"
    using sniff_header_needs_line [OF that] by (simp add: checkVersion_sniff)
  have 6: "checkVersion h code = None" if "versionRegExp_exec code = Some g" "JSON_parse h g = Inl e"
    using that by (simp add: checkVersion_def)
  have 7: "checkVersion h code = None
       \<or> (\<exists>g info. versionRegExp_exec code = Some g \<and> JSON_parse h g = Inr info
             \<and> checkVersion h code = Some info)"
    by (auto simp: checkVersion_def split: option.splits sum.splits)
  have 8: "\<exists>i body j nl rest.
           code = ''//'' @ replicate i (CHR '' '') @ ''{'' @ body @ ''}''
             @ replicate j (CHR '' '') @ nl @ rest
           \<and> CHR ''}'' \<notin> set body \<and> (nl = [LF] \<or> nl = [CR, LF])
           \<and> JSON_parse h (''{'' @ body @ ''}'') = Inr found"
    if c: "checkVersion h code = Some found"
  proof -
    from c obtain g where g: "sniff_header code = Some g" "JSON_parse h g = Inr found"
      by (auto simp: checkVersion_sniff split: option.splits sum.splits)
    from sniff_header_only_shape [OF g(1)] g(2) show ?thesis by blast
  qed
  from 1 2 3 4 5 6 7 8 show ?thesis by simp
qed

text \<open>The header of the claim, a bundle with no header and a header that does not parse.\<close>

theorem checkVersion_header_witness:
  "JSON_parse host0 foo_text = Inr foo_info
   \<and> checkVersion host0 (''// '' @ foo_text @ [LF] @ ''code'') = Some foo_info
   \<and> take 2 ''code'' \<noteq> ''//'' \<and> LF \<notin> set ''code'' \<and> checkVersion host0 ''code'' = None
   \<and> CHR ''}'' \<notin> set ''oops'' \<and> LF \<notin> set ''oops''
   \<and> JSON_parse host0 ''{oops}'' = Inl SyntaxError
   \<and> checkVersion host0 (''// {oops}  '' @ [CR, LF] @ ''code'') = None"
proof -
  have p: "JSON_parse host0 foo_text = Inr foo_info"
    "JSON_parse host0 ''{oops}'' = Inl SyntaxError"
    by (simp_all add: host0_def foo_text_def)
  have c: "take 2 ''code'' \<noteq> ''//''" "LF \<notin> set ''code''" "CHR ''}'' \<notin> set ''oops''"
    "LF \<notin> set ''oops''"
    by (simp_all add: LF_def)
  from checkVersion_header [of "''oops''" "[CR, LF]" host0 1 2 "''code''" "''code''"
      "''x''" SyntaxError] p c
  show ?thesis by (simp add: numeral_2_eq_2)
qed

text \<open>
  Against C4 as stated: a comment on one line that holds a JSON object with an object
  inside yields nothing; and of two bundles with the same first line, up to and with its
  line break, one yields an object and the other nothing, since the brace text runs on
  to the second line.
\<close>

theorem checkVersion_first_line_counterexample:
  "checkVersion host0 (''// {\"a\":{\"b\":1}}'' @ [LF] @ ''code'') = None
   \<and> checkVersion host0 (''// {'' @ [LF] @ ''}'' @ [LF] @ ''code'') = Some []
   \<and> checkVersion host0 (''// {'' @ [LF] @ ''code'') = None"
  by (simp add: checkVersion_sniff sniff_header_def brace_text_def LF_def CR_def host0_def
      foo_text_def)

section \<open>The registry\<close>

lemma map_of_filter_key:
  "map_of (filter (\<lambda>(k', _). k' \<noteq> k) ob) k' = (if k' = k then None else map_of ob k')"
  by (induction ob) auto

lemma get_set_prop: "get_prop (set_prop k v ob) k' = (if k' = k then v else get_prop ob k')"
  by (simp add: get_prop_def set_prop_def map_of_filter_key)

lemma lookup_own: "reg k = Some ob \<Longrightarrow> lookup h reg k = JObject ob"
  by (simp add: lookup_def)


lemma lookup_inherited: "reg k = None \<Longrightarrow> inherited h k = Some v \<Longrightarrow> lookup h reg k = v"
  by (simp add: lookup_def)

subsection \<open>\<^verbatim>\<open>destroyInstance\<close>\<close>







subsection \<open>\<^verbatim>\<open>createInstance\<close>\<close>

lemma createInstance_existing:
  assumes "instanceMap rt ident = Some ob"
  shows "createInstance h ident code config data rt
    = (rt, Inr (JError ''invalid instance id'' (JString ident)))"
  using assms by (simp add: createInstance_def lookup_own)

lemma createInstance_found:
  assumes "truthy (lookup h (instanceMap rt) ident)"
  shows "createInstance h ident code config data rt
    = (rt, Inr (JError ''invalid instance id'' (JString ident)))"
  using assms by (simp add: createInstance_def)

text \<open>
  When the lookup finds nothing, \<^verbatim>\<open>createInstance\<close> takes the object sniffed from the
  bundle (an empty one if there is none), names the framework \<^verbatim>\<open>Weex\<close> when the sniffed
  framework is not registered, stores the object under \<open>id\<close>, sets \<^verbatim>\<open>bundleVersion\<close> of the
  config to the sniffed version and calls the \<^verbatim>\<open>createInstance\<close> of the framework named,
  whose outcome is its own.
\<close>

lemma createInstance_fresh:
  assumes h: "\<not> truthy (lookup h (instanceMap rt) ident)"
      "sniffed = (case checkVersion h code of Some ob \<Rightarrow> ob | None \<Rightarrow> [])"
      "name = (if frameworks h (get_prop sniffed ''framework'') = None then JString ''Weex''
                 else get_prop sniffed ''framework'')"
      "frameworks h name = Some fw" "createInstance_of fw = Some create"
  shows "\<exists>info config'.
         createInstance h ident code config data rt
           = (rt\<lparr>instanceMap := (instanceMap rt)(ident \<mapsto> info),
                  calls := calls rt @ [CreateCall name ident code config' data]\<rparr>,
              create ident code config' data)
         \<and> get_prop info ''framework'' = name
         \<and> get_prop info ''version'' = get_prop sniffed ''version''
         \<and> get_prop config' ''bundleVersion'' = get_prop sniffed ''version''
         \<and> (\<forall>k. k \<noteq> ''bundleVersion'' \<longrightarrow>
               get_prop config' k = get_prop (case config of Some c \<Rightarrow> c | None \<Rightarrow> []) k)"
proof -
  let ?info = "if frameworks h (get_prop sniffed ''framework'') = None
      then set_prop ''framework'' (JString ''Weex'') sniffed else sniffed"
  let ?config = "set_prop ''bundleVersion'' (get_prop ?info ''version'')
      (case config of Some c \<Rightarrow> c | None \<Rightarrow> [])"
  have n: "get_prop ?info ''framework'' = name" using h(3) by (simp add: get_set_prop)
  have v: "get_prop ?info ''version'' = get_prop sniffed ''version''"
    by (simp add: get_set_prop)
  have c: "createInstance h ident code config data rt
         = (rt\<lparr>instanceMap := (instanceMap rt)(ident \<mapsto> ?info),
                calls := calls rt @ [CreateCall name ident code ?config data]\<rparr>,
            create ident code ?config data)"
    using h(1,4,5) n unfolding createInstance_def h(2) [symmetric] by (simp add: Let_def)
  have b: "get_prop ?config ''bundleVersion'' = get_prop sniffed ''version''"
    using v by (simp only: get_set_prop simp_thms if_True)
  have k: "\<forall>k. k \<noteq> ''bundleVersion'' \<longrightarrow>
      get_prop ?config k = get_prop (case config of Some c \<Rightarrow> c | None \<Rightarrow> []) k"
    by (simp only: get_set_prop) simp
  from c n v b k show ?thesis by blast
qed

lemma checkVersion_foo_bundle: "checkVersion host0 foo_bundle = Some foo_info"
  by (simp add: checkVersion_sniff sniff_header_def brace_text_def foo_bundle_def foo_text_def
      host0_def LF_def CR_def)

lemma checkVersion_plain: "checkVersion host0 ''code'' = None"
  by (simp add: checkVersion_sniff sniff_header_def)

text \<open>
  Claim C8, at the id \<^verbatim>\<open>'toString'\<close>. The registry is empty, so there is no entry for the
  id, and the bundle carries the header of the registered framework \<^verbatim>\<open>Foo\<close>; yet
  \<^verbatim>\<open>createInstance\<close> returns the error value, stores nothing and calls no framework,
  because \<^verbatim>\<open>instanceMap['toString']\<close> finds the method every object inherits. Under the id
  \<^verbatim>\<open>'x'\<close> the same call creates the instance of \<^verbatim>\<open>Foo\<close>.
\<close>

theorem createInstance_inherited_id:
  "instanceMap empty_runtime ''toString'' = None
   \<and> createInstance host0 ''toString'' foo_bundle None JNull empty_runtime
       = (empty_runtime, Inr (JError ''invalid instance id'' (JString ''toString'')))
   \<and> createInstance host0 ''x'' foo_bundle None JNull empty_runtime
       = (\<lparr>instanceMap = [''x'' \<mapsto> foo_info],
           calls = [CreateCall (JString ''Foo'') ''x'' foo_bundle
                      [(''bundleVersion'', JString ''1.0'')] JNull]\<rparr>,
          Inr (JString ''foo instance''))"
proof -
  have e: "instanceMap empty_runtime ''toString'' = None" by (simp add: empty_runtime_def)
  have i: "inherited host0 ''toString'' = Some (JFunction 0)" "inherited host0 ''x'' = None"
    by (simp_all add: host0_def object_members_def)
  from lookup_inherited [of "instanceMap empty_runtime" "''toString''" host0, OF e i(1)]
  have "truthy (lookup host0 (instanceMap empty_runtime) ''toString'')"
    by simp
  from createInstance_found [OF this]
  have t: "createInstance host0 ''toString'' foo_bundle None JNull empty_runtime
       = (empty_runtime, Inr (JError ''invalid instance id'' (JString ''toString'')))" .
  have f: "frameworks host0 (JString ''Foo'') = Some foo_fw"
    "createInstance_of foo_fw = Some (\<lambda>i c cfg d. Inr (JString ''foo instance''))"
    by (simp_all add: host0_def foo_fw_def)
  have x: "createInstance host0 ''x'' foo_bundle None JNull empty_runtime
       = (\<lparr>instanceMap = [''x'' \<mapsto> foo_info],
           calls = [CreateCall (JString ''Foo'') ''x'' foo_bundle
                      [(''bundleVersion'', JString ''1.0'')] JNull]\<rparr>,
          Inr (JString ''foo instance''))"
    using f i(2) by (simp add: createInstance_def lookup_def checkVersion_foo_bundle
        empty_runtime_def set_prop_def get_prop_def foo_info_def)
  from e t x show ?thesis by simp
qed

subsection \<open>\<^verbatim>\<open>prepareInstance\<close>\<close>

lemma prepareInstance_placeholder:
  assumes "(case frameworks h (if truthy type then type else JString ''Weex'') of
      Some fw \<Rightarrow> prepareInstance_of fw | None \<Rightarrow> None) = None"
  shows "prepareInstance h ident type config data rt
    = (rt\<lparr>instanceMap := (instanceMap rt)(ident \<mapsto> [])\<rparr>, Inr JUndefined)"
  using assms by (simp add: prepareInstance_def Let_def)

lemma prepareInstance_returns:
  assumes "prepareInstance h ident type config data rt = (rt', Inr v)"
  shows "v = JUndefined \<and> (\<exists>shell. instanceMap rt' = (instanceMap rt)(ident \<mapsto> shell))"
  using assms
  by (auto simp: prepareInstance_def Let_def split: option.splits sum.splits)

text \<open>
  Claim C3, as the code has it. \<^verbatim>\<open>prepareInstance\<close> with a type that names no registered
  framework, or one without a \<^verbatim>\<open>prepareInstance\<close>, stores an empty object under \<open>id\<close> and
  returns \<^verbatim>\<open>undefined\<close>, not an error. Whenever \<^verbatim>\<open>prepareInstance\<close> returns, the entry of
  \<open>id\<close> is the one just made, whatever was there before. A later \<^verbatim>\<open>createInstance\<close> for
  the same id finds the placeholder, returns an error value, calls no framework and
  leaves the registry as it is: the bundle is not sniffed.
\<close>

theorem prepareInstance_unknown_type:
  "(frameworks h (JString ''UnknownType'') = None \<longrightarrow>
      prepareInstance h ident (JString ''UnknownType'') config data rt
        = (rt\<lparr>instanceMap := (instanceMap rt)(ident \<mapsto> [])\<rparr>, Inr JUndefined))
   \<and> ((case frameworks h (if truthy type then type else JString ''Weex'') of
          Some fw \<Rightarrow> prepareInstance_of fw | None \<Rightarrow> None) = None \<longrightarrow>
      prepareInstance h ident type config data rt
        = (rt\<lparr>instanceMap := (instanceMap rt)(ident \<mapsto> [])\<rparr>, Inr JUndefined))
   \<and> (prepareInstance h ident type config data rt = (rt', Inr v) \<longrightarrow>
        v = JUndefined \<and> (\<exists>shell. instanceMap rt' = (instanceMap rt)(ident \<mapsto> shell)))
   \<and> (frameworks h (JString ''UnknownType'') = None \<longrightarrow>
      createInstance h ident code config' data'
          (fst (prepareInstance h ident (JString ''UnknownType'') config data rt))
        = (rt\<lparr>instanceMap := (instanceMap rt)(ident \<mapsto> [])\<rparr>,
           Inr (JError ''invalid instance id'' (JString ident))))"
proof -
  have 1: "prepareInstance h ident (JString ''UnknownType'') config data rt
        = (rt\<lparr>instanceMap := (instanceMap rt)(ident \<mapsto> [])\<rparr>, Inr JUndefined)"
    if "frameworks h (JString ''UnknownType'') = None"
    using that by (simp add: prepareInstance_placeholder)
  have 4: "createInstance h ident code config' data'
          (fst (prepareInstance h ident (JString ''UnknownType'') config data rt))
        = (rt\<lparr>instanceMap := (instanceMap rt)(ident \<mapsto> [])\<rparr>,
           Inr (JError ''invalid instance id'' (JString ident)))"
    if "frameworks h (JString ''UnknownType'') = None"
    using 1 [OF that] by (simp add: createInstance_existing)
  from 1 4 prepareInstance_placeholder [of h type ident config data rt]
    prepareInstance_returns [of h ident type config data rt rt' v]
  show ?thesis by blast
qed

text \<open>
  A prepare with an unknown type in an empty registry and the create that follows it; a
  second prepare with \<^verbatim>\<open>Foo\<close> replaces the placeholder by the shell of \<^verbatim>\<open>Foo\<close>.
\<close>

theorem prepareInstance_unknown_type_witness:
  "frameworks host0 (JString ''UnknownType'') = None
   \<and> prepareInstance host0 ''x'' (JString ''UnknownType'') None JNull empty_runtime
       = (\<lparr>instanceMap = [''x'' \<mapsto> []], calls = []\<rparr>, Inr JUndefined)
   \<and> createInstance host0 ''x'' foo_bundle None JNull
        (fst (prepareInstance host0 ''x'' (JString ''UnknownType'') None JNull empty_runtime))
       = (\<lparr>instanceMap = [''x'' \<mapsto> []], calls = []\<rparr>,
          Inr (JError ''invalid instance id'' (JString ''x'')))
   \<and> prepareInstance host0 ''x'' (JString ''Foo'') None JNull
        \<lparr>instanceMap = [''x'' \<mapsto> []], calls = []\<rparr>
       = (\<lparr>instanceMap = [''x'' \<mapsto> [(''framework'', JString ''Foo''), (''shell'', JBoolean True)]],
           calls = [PrepareCall (JString ''Foo'') ''x'' None JNull]\<rparr>, Inr JUndefined)"
proof -
  have u: "frameworks host0 (JString ''UnknownType'') = None" by (simp add: host0_def)
  have r: "empty_runtime\<lparr>instanceMap := (instanceMap empty_runtime)(''x'' \<mapsto> [])\<rparr>
      = \<lparr>instanceMap = [''x'' \<mapsto> []], calls = []\<rparr>"
    by (simp add: empty_runtime_def)
  have p: "prepareInstance host0 ''x'' (JString ''Foo'') None JNull
        \<lparr>instanceMap = [''x'' \<mapsto> []], calls = []\<rparr>
       = (\<lparr>instanceMap = [''x'' \<mapsto> [(''framework'', JString ''Foo''), (''shell'', JBoolean True)]],
           calls = [PrepareCall (JString ''Foo'') ''x'' None JNull]\<rparr>, Inr JUndefined)"
    by (simp add: prepareInstance_def host0_def foo_fw_def set_prop_def Let_def)
  from prepareInstance_unknown_type [of host0 "''x''" None JNull empty_runtime "JString ''Foo''"
      "\<lparr>instanceMap = [''x'' \<mapsto> [(''framework'', JString ''Foo''), (''shell'', JBoolean True)]],
           calls = [PrepareCall (JString ''Foo'') ''x'' None JNull]\<rparr>" JUndefined foo_bundle None JNull]
    u
  have "prepareInstance host0 ''x'' (JString ''UnknownType'') None JNull empty_runtime
       = (empty_runtime\<lparr>instanceMap := (instanceMap empty_runtime)(''x'' \<mapsto> [])\<rparr>,
          Inr JUndefined)"
    and "createInstance host0 ''x'' foo_bundle None JNull
        (fst (prepareInstance host0 ''x'' (JString ''UnknownType'') None JNull empty_runtime))
       = (empty_runtime\<lparr>instanceMap := (instanceMap empty_runtime)(''x'' \<mapsto> [])\<rparr>,
          Inr (JError ''invalid instance id'' (JString ''x'')))"
    by blast+
  then have "prepareInstance host0 ''x'' (JString ''UnknownType'') None JNull empty_runtime
       = (\<lparr>instanceMap = [''x'' \<mapsto> []], calls = []\<rparr>, Inr JUndefined)"
    and "createInstance host0 ''x'' foo_bundle None JNull
        (fst (prepareInstance host0 ''x'' (JString ''UnknownType'') None JNull empty_runtime))
       = (\<lparr>instanceMap = [''x'' \<mapsto> []], calls = []\<rparr>,
          Inr (JError ''invalid instance id'' (JString ''x'')))"
    unfolding r by blast+
  with u p show ?thesis by blast
qed

text \<open>
  Against C3 as stated: after a prepare with an unknown type, \<^verbatim>\<open>createInstance\<close> with a
  bundle whose header names \<^verbatim>\<open>Foo\<close> returns an error value and calls no framework, where
  the same call in a registry without the placeholder creates an instance of \<^verbatim>\<open>Foo\<close>.
\<close>

theorem createInstance_after_prepare_counterexample:
  "createInstance host0 ''x'' foo_bundle None JNull
      (fst (prepareInstance host0 ''x'' (JString ''UnknownType'') None JNull empty_runtime))
     = (\<lparr>instanceMap = [''x'' \<mapsto> []], calls = []\<rparr>,
        Inr (JError ''invalid instance id'' (JString ''x'')))
   \<and> createInstance host0 ''x'' foo_bundle None JNull empty_runtime
     = (\<lparr>instanceMap = [''x'' \<mapsto> foo_info],
         calls = [CreateCall (JString ''Foo'') ''x'' foo_bundle
                    [(''bundleVersion'', JString ''1.0'')] JNull]\<rparr>,
        Inr (JString ''foo instance''))"
proof -
  have f: "frameworks host0 (JString ''Foo'') = Some foo_fw"
    "frameworks host0 (JString ''UnknownType'') = None"
    "createInstance_of foo_fw = Some (\<lambda>i c cfg d. Inr (JString ''foo instance''))"
    "inherited host0 ''x'' = None"
    by (simp_all add: host0_def foo_fw_def object_members_def)
  have p: "prepareInstance host0 ''x'' (JString ''UnknownType'') None JNull empty_runtime
      = (\<lparr>instanceMap = [''x'' \<mapsto> []], calls = []\<rparr>, Inr JUndefined)"
    using f by (simp add: prepareInstance_def empty_runtime_def Let_def)
  have c1: "createInstance host0 ''x'' foo_bundle None JNull
      \<lparr>instanceMap = [''x'' \<mapsto> []], calls = []\<rparr>
     = (\<lparr>instanceMap = [''x'' \<mapsto> []], calls = []\<rparr>,
        Inr (JError ''invalid instance id'' (JString ''x'')))"
    by (simp add: createInstance_def lookup_def)
  have c2: "createInstance host0 ''x'' foo_bundle None JNull empty_runtime
     = (\<lparr>instanceMap = [''x'' \<mapsto> foo_info],
         calls = [CreateCall (JString ''Foo'') ''x'' foo_bundle
                    [(''bundleVersion'', JString ''1.0'')] JNull]\<rparr>,
        Inr (JString ''foo instance''))"
    using f by (simp add: createInstance_def lookup_def checkVersion_foo_bundle empty_runtime_def
        set_prop_def get_prop_def foo_info_def object_members_def)
  from p c1 c2 show ?thesis by simp
qed

end
